theory Spec2Isabelle
  imports Complex_Main "HOL-Library.Multiset"
begin

section \<open>Python values and exceptions\<close>

text \<open>
  The program is \<^verbatim>\<open>src/main.py\<close>: a dataset class over an LMDB archive
  (\<^verbatim>\<open>ImageFolderLMDB\<close>), a running-average accumulator (\<^verbatim>\<open>AverageMeter\<close>), one
  training pass that times its batches (\<^verbatim>\<open>train\<close>) and the benchmark driver
  (\<^verbatim>\<open>main\<close>).

  Every exception the code can raise is a value of \<open>error\<close>. The names are Python's;
  the specification calls \<open>LmdbError\<close> "StorageUnavailable", \<open>IndexError\<close>
  "IndexOutOfRange", and \<open>UnpicklingError\<close> and \<open>UnidentifiedImageError\<close>
  "DecodeError".
\<close>

datatype error =
    LmdbError
  | IndexError
  | TypeError
  | UnpicklingError
  | UnidentifiedImageError
  | AttributeError
  | ZeroDivisionError
  | OverflowError

type_synonym bytes = string

text \<open>
  The Python objects that \<^verbatim>\<open>pickle.loads\<close> can return, as far as the program looks into
  them: it subscripts them, passes them on as keys and writes them into a byte buffer.
\<close>

datatype pyobj =
    PyNone
  | PyInt int
  | PyBytes bytes
  | PyTuple "pyobj list"
  | PyList "pyobj list"

text \<open>
  Python's \<^verbatim>\<open>xs[i]\<close> on a sequence: a negative index counts from the end, and an
  index outside \<open>[-len, len)\<close> raises IndexError.
\<close>

definition py_index :: "'a list \<Rightarrow> int \<Rightarrow> error + 'a" where
  "py_index xs i =
     (let n = int (length xs); j = (if i < 0 then i + n else i)
      in if 0 \<le> j \<and> j < n then Inr (xs ! nat j) else Inl IndexError)"

fun subscript :: "pyobj \<Rightarrow> int \<Rightarrow> error + pyobj" where
  "subscript (PyTuple xs) i = py_index xs i"
| "subscript (PyList xs) i = py_index xs i"
| "subscript (PyBytes bs) i = py_index (map (\<lambda>c. PyInt (of_char c)) bs) i"
| "subscript PyNone i = Inl TypeError"
| "subscript (PyInt k) i = Inl TypeError"

section \<open>Python numbers\<close>

text \<open>
  A Python number is an \<^verbatim>\<open>int\<close>, of any size, or a \<^verbatim>\<open>float\<close>, an IEEE 754 double.
  A double is a finite value, kept as the rational it denotes, an infinity (\<open>True\<close>
  for the positive one) or not-a-number. The two zeros of IEEE 754 are not told apart;
  nothing below looks at the sign of a zero.
\<close>

datatype float64 = Finite rat | Infinity bool | NaN

datatype pynum = NInt int | NFloat float64

text \<open>
  Rounding to the nearest double, ties to even. \<open>bit_length n\<close> is the number of
  binary digits of \<open>n\<close>; \<open>binade x\<close>, for \<open>x > 0\<close>, is the exponent \<open>e\<close> with
  \<open>2^e \<le> x < 2^(e+1)\<close>. A double has 53 significant bits, so the doubles around \<open>x\<close>
  are the multiples of \<open>2^(e-52)\<close>, and of \<open>2^(-1074)\<close> below the normal range. A
  result of \<open>2^1024\<close> or more is an infinity.
\<close>

fun bit_length :: "nat \<Rightarrow> nat" where
  "bit_length n = (if n = 0 then 0 else Suc (bit_length (n div 2)))"

declare bit_length.simps [simp del]

definition pow2 :: "int \<Rightarrow> rat" where
  "pow2 q = (if 0 \<le> q then 2 ^ nat q else 1 / 2 ^ nat (- q))"

definition binade :: "rat \<Rightarrow> int" where
  "binade x =
     (if 1 \<le> x then int (bit_length (nat \<lfloor>x\<rfloor>)) - 1
      else - int (bit_length (nat (\<lceil>1 / x\<rceil> - 1))))"

definition round_half_even :: "rat \<Rightarrow> int" where
  "round_half_even t =
     (let f = \<lfloor>t\<rfloor>; r = t - of_int f
      in if r < 1 / 2 then f else if 1 / 2 < r then f + 1 else if even f then f else f + 1)"

definition round_float :: "rat \<Rightarrow> float64" where
  "round_float x =
     (if x = 0 then Finite 0
      else let q = max (binade \<bar>x\<bar> - 52) (- 1074);
               y = of_int (round_half_even (\<bar>x\<bar> / pow2 q)) * pow2 q
           in if 2 ^ 1024 \<le> y then Infinity (0 < x) else Finite (sgn x * y))"


text \<open>
  The arithmetic of doubles: the exact result, rounded; the special values as IEEE 754
  has them. \<open>fdiv\<close> is applied to a divisor other than zero only.
\<close>

fun fneg :: "float64 \<Rightarrow> float64" where
  "fneg (Finite a) = Finite (- a)"
| "fneg (Infinity s) = Infinity (\<not> s)"
| "fneg NaN = NaN"

fun fadd :: "float64 \<Rightarrow> float64 \<Rightarrow> float64" where
  "fadd (Finite a) (Finite b) = round_float (a + b)"
| "fadd (Finite a) (Infinity t) = Infinity t"
| "fadd (Infinity s) (Finite b) = Infinity s"
| "fadd (Infinity s) (Infinity t) = (if s = t then Infinity s else NaN)"
| "fadd NaN y = NaN"
| "fadd x NaN = NaN"

definition fsub :: "float64 \<Rightarrow> float64 \<Rightarrow> float64" where
  "fsub x y = fadd x (fneg y)"

fun fmul :: "float64 \<Rightarrow> float64 \<Rightarrow> float64" where
  "fmul (Finite a) (Finite b) = round_float (a * b)"
| "fmul (Finite a) (Infinity t) = (if a = 0 then NaN else Infinity (t = (0 < a)))"
| "fmul (Infinity s) (Finite b) = (if b = 0 then NaN else Infinity (s = (0 < b)))"
| "fmul (Infinity s) (Infinity t) = Infinity (s = t)"
| "fmul NaN y = NaN"
| "fmul x NaN = NaN"

fun fdiv :: "float64 \<Rightarrow> float64 \<Rightarrow> float64" where
  "fdiv (Finite a) (Finite b) = round_float (a / b)"
| "fdiv (Finite a) (Infinity t) = Finite 0"
| "fdiv (Infinity s) (Finite b) = Infinity (s = (0 < b))"
| "fdiv (Infinity s) (Infinity t) = NaN"
| "fdiv NaN y = NaN"
| "fdiv x NaN = NaN"

text \<open>
  Python's operators on numbers. Two ints give the exact int, except under \<^verbatim>\<open>/\<close>,
  whose result is the double nearest to the exact quotient. With a float among the
  operands an int is converted first, to the nearest double. A conversion or an int
  quotient beyond the range of doubles raises OverflowError, and a zero divisor raises
  ZeroDivisionError.
\<close>

fun to_float :: "pynum \<Rightarrow> error + float64" where
  "to_float (NInt i) =
     (case round_float (of_int i) of Infinity s \<Rightarrow> Inl OverflowError | x \<Rightarrow> Inr x)"
| "to_float (NFloat x) = Inr x"

definition float_op :: "(float64 \<Rightarrow> float64 \<Rightarrow> float64) \<Rightarrow> pynum \<Rightarrow> pynum \<Rightarrow> error + pynum" where
  "float_op f a b =
     (case to_float a of
        Inl e \<Rightarrow> Inl e
      | Inr x \<Rightarrow> (case to_float b of Inl e \<Rightarrow> Inl e | Inr y \<Rightarrow> Inr (NFloat (f x y))))"

fun py_add :: "pynum \<Rightarrow> pynum \<Rightarrow> error + pynum" where
  "py_add (NInt i) (NInt j) = Inr (NInt (i + j))"
| "py_add a b = float_op fadd a b"

fun py_mul :: "pynum \<Rightarrow> pynum \<Rightarrow> error + pynum" where
  "py_mul (NInt i) (NInt j) = Inr (NInt (i * j))"
| "py_mul a b = float_op fmul a b"

fun py_truediv :: "pynum \<Rightarrow> pynum \<Rightarrow> error + pynum" where
  "py_truediv (NInt i) (NInt j) =
     (if j = 0 then Inl ZeroDivisionError
      else case round_float (of_int i / of_int j) of
             Infinity s \<Rightarrow> Inl OverflowError
           | x \<Rightarrow> Inr (NFloat x))"
| "py_truediv a b =
     (case to_float a of
        Inl e \<Rightarrow> Inl e
      | Inr x \<Rightarrow>
          (case to_float b of
             Inl e \<Rightarrow> Inl e
           | Inr y \<Rightarrow> if y = Finite 0 then Inl ZeroDivisionError else Inr (NFloat (fdiv x y))))"

section \<open>AverageMeter\<close>

text \<open>
  \<^verbatim>\<open>
  class AverageMeter(object):
      def __init__(self):
          self.reset()
      def reset(self):
          self.val = 0
          self.avg = 0
          self.sum = 0
          self.count = 0
          self.avg_values = list()
      def update(self, val, n=1):
          self.val = val
          self.sum += val * n
          self.count += n
          self.avg = self.sum / self.count
          self.avg_values.append(self.avg)
  \<close>
  The values are Python numbers and the arithmetic is Python's. The weight \<open>n\<close> is an
  int, as at every call in the program, so the count is an int. The fields \<open>sum\<close> and
  \<open>count\<close> carry the suffix \<open>_m\<close> because HOL has constants of these names.
\<close>

record meter =
  val :: pynum
  avg :: pynum
  sum_m :: pynum
  count_m :: int
  avg_values :: "pynum list"

definition reset :: "meter \<Rightarrow> meter" where
  "reset m = m\<lparr>val := NInt 0, avg := NInt 0, sum_m := NInt 0, count_m := 0, avg_values := []\<rparr>"

definition AverageMeter :: meter where
  "AverageMeter = reset \<lparr>val = NInt 0, avg = NInt 0, sum_m = NInt 0, count_m = 0, avg_values = []\<rparr>"

definition update :: "meter \<Rightarrow> pynum \<Rightarrow> int \<Rightarrow> error + meter" where
  "update m v n =
     (let m1 = m\<lparr>val := v\<rparr> in
      case py_mul v (NInt n) of
        Inl e \<Rightarrow> Inl e
      | Inr p \<Rightarrow>
          (case py_add (sum_m m1) p of
             Inl e \<Rightarrow> Inl e
           | Inr s \<Rightarrow>
               (let m2 = m1\<lparr>sum_m := s\<rparr>;
                    m3 = m2\<lparr>count_m := count_m m2 + n\<rparr>
                in case py_truediv (sum_m m3) (NInt (count_m m3)) of
                     Inl e \<Rightarrow> Inl e
                   | Inr a \<Rightarrow>
                       (let m4 = m3\<lparr>avg := a\<rparr>
                        in Inr (m4\<lparr>avg_values := avg_values m4 @ [avg m4]\<rparr>)))))"

text \<open>A sequence of calls \<^verbatim>\<open>update(v, n)\<close> on one meter; the first exception ends it.\<close>

fun updates :: "meter \<Rightarrow> (pynum \<times> int) list \<Rightarrow> error + meter" where
  "updates m [] = Inr m"
| "updates m ((v, n) # xs) =
     (case update m v n of Inl e \<Rightarrow> Inl e | Inr m' \<Rightarrow> updates m' xs)"

text \<open>
  What a sequence of calls is to leave in a meter, written without the meter: the sum
  accumulated call by call in Python's arithmetic from \<open>s\<close>, the total of the weights,
  and the average after the calls, from the sum \<open>s\<close> and the count \<open>c\<close>.
\<close>

fun accumulate :: "pynum \<Rightarrow> (pynum \<times> int) list \<Rightarrow> error + pynum" where
  "accumulate s [] = Inr s"
| "accumulate s ((v, n) # xs) =
     (case py_mul v (NInt n) of
        Inl e \<Rightarrow> Inl e
      | Inr p \<Rightarrow> (case py_add s p of Inl e \<Rightarrow> Inl e | Inr s' \<Rightarrow> accumulate s' xs))"

definition total_weight :: "(pynum \<times> int) list \<Rightarrow> int" where
  "total_weight xs = sum_list (map snd xs)"

definition average_from :: "pynum \<Rightarrow> int \<Rightarrow> (pynum \<times> int) list \<Rightarrow> error + pynum" where
  "average_from s c xs =
     (case accumulate s xs of
        Inl e \<Rightarrow> Inl e
      | Inr s' \<Rightarrow> py_truediv s' (NInt (c + total_weight xs)))"

definition python_sum :: "(pynum \<times> int) list \<Rightarrow> error + pynum" where
  "python_sum xs = accumulate (NInt 0) xs"

definition python_avg :: "(pynum \<times> int) list \<Rightarrow> error + pynum" where
  "python_avg xs = average_from (NInt 0) 0 xs"

text \<open>
  The share of the int values: their exact weighted sum, and the sum of the magnitudes
  of their products, which bounds every int that a sequence of calls computes.
\<close>

fun int_part :: "pynum \<times> int \<Rightarrow> int" where
  "int_part (NInt i, n) = i * n"
| "int_part (NFloat x, n) = 0"

definition exact_sum :: "(pynum \<times> int) list \<Rightarrow> int" where
  "exact_sum xs = sum_list (map int_part xs)"

definition int_mass :: "(pynum \<times> int) list \<Rightarrow> int" where
  "int_mass xs = sum_list (map (\<lambda>p. \<bar>int_part p\<bar>) xs)"

fun magnitude :: "pynum \<Rightarrow> int" where
  "magnitude (NInt i) = \<bar>i\<bar>"
| "magnitude (NFloat x) = 0"

section \<open>ImageFolderLMDB\<close>

text \<open>
  What lies outside the program is state or a parameter:
  \<^item> an archive is the content of an LMDB store, a map from keys to values;
  \<^item> the \<open>world\<close> holds the file system as far as \<^verbatim>\<open>lmdb.open\<close> sees it (the
    archive found at a path, or \<open>None\<close> where \<^verbatim>\<open>lmdb.open\<close> raises), the number
    of connections opened so far (the next connection is identified by it), the state
    of the random generator that randomized transforms draw from, and the number of
    calls of \<^verbatim>\<open>time.time()\<close> so far;
  \<^item> \<open>libs\<close> holds the library functions the program calls on data:
    \<^verbatim>\<open>pickle.loads\<close> and \<^verbatim>\<open>Image.open(buf).convert('RGB')\<close> (\<open>None\<close> where they
    raise), and the readings of the wall clock, one per call of \<^verbatim>\<open>time.time()\<close>.
  A read transaction sees the store as it was when the transaction began, so the
  attribute \<^verbatim>\<open>self.txn\<close> is modelled by that content.
\<close>

type_synonym archive = "bytes \<rightharpoonup> bytes"

record world =
  fs :: "string \<Rightarrow> archive option"
  opens :: nat
  rng :: nat
  now :: nat

record 'img libs =
  pickle_loads :: "bytes \<Rightarrow> pyobj option"
  image_open :: "bytes \<Rightarrow> 'img option"
  clock :: "nat \<Rightarrow> float64"

text \<open>
  The attributes of an \<^verbatim>\<open>ImageFolderLMDB\<close> object. \<^verbatim>\<open>env\<close> and \<^verbatim>\<open>txn\<close> do not
  exist until \<^verbatim>\<open>open_lmdb\<close> sets them (\<^verbatim>\<open>hasattr(self, 'txn')\<close> is \<open>txn h \<noteq> None\<close>).
  A transform is a callable that may draw from the random generator: it takes the
  generator's state and returns the new one. \<^verbatim>\<open>self.length\<close> is \<open>length_attr\<close>.
\<close>

record 'img handle =
  db_path :: string
  transform :: "(nat \<Rightarrow> 'img \<Rightarrow> 'img \<times> nat) option"
  target_transform :: "(nat \<Rightarrow> pyobj \<Rightarrow> pyobj \<times> nat) option"
  length_attr :: pyobj
  keys :: pyobj
  env :: "nat option"
  txn :: "archive option"

text \<open>
  \<^verbatim>\<open>pickle.loads(txn.get(key))\<close>: \<^verbatim>\<open>txn.get\<close> returns \<^verbatim>\<open>None\<close> for a key that is
  not in the store, and \<^verbatim>\<open>pickle.loads(None)\<close> raises TypeError.
\<close>

definition loads :: "'img libs \<Rightarrow> bytes option \<Rightarrow> error + pyobj" where
  "loads L b =
     (case b of
        None \<Rightarrow> Inl TypeError
      | Some bs \<Rightarrow> (case pickle_loads L bs of None \<Rightarrow> Inl UnpicklingError | Some v \<Rightarrow> Inr v))"

text \<open>
  \<^verbatim>\<open>
  def __init__(self, db_path, transform=None, target_transform=None):
      self.db_path = db_path
      self.transform = transform
      self.target_transform = target_transform
      env = lmdb.open(self.db_path, subdir=osp.isdir(self.db_path),
                      readonly=True, lock=False, readahead=False, meminit=False)
      with env.begin(write=False) as txn:
          self.length = pickle.loads(txn.get(b'__len__'))
          self.keys = pickle.loads(txn.get(b'__keys__'))
  \<close>
  The connection and the transaction are local variables: the object does not keep them.
\<close>

definition init ::
  "'img libs \<Rightarrow> string \<Rightarrow> (nat \<Rightarrow> 'img \<Rightarrow> 'img \<times> nat) option \<Rightarrow>
   (nat \<Rightarrow> pyobj \<Rightarrow> pyobj \<times> nat) option \<Rightarrow> world \<Rightarrow> (error + 'img handle) \<times> world" where
  "init L path tr ttr w =
     (case fs w path of
        None \<Rightarrow> (Inl LmdbError, w)
      | Some a \<Rightarrow>
          (let w' = w\<lparr>opens := opens w + 1\<rparr> in
           case loads L (a ''__len__'') of
             Inl e \<Rightarrow> (Inl e, w')
           | Inr n \<Rightarrow>
               (case loads L (a ''__keys__'') of
                  Inl e \<Rightarrow> (Inl e, w')
                | Inr ks \<Rightarrow>
                    (Inr \<lparr>db_path = path, transform = tr, target_transform = ttr,
                          length_attr = n, keys = ks, env = None, txn = None\<rparr>, w'))))"

text \<open>
  \<^verbatim>\<open>
  def open_lmdb(self):
       self.env = lmdb.open(self.db_path, subdir=osp.isdir(self.db_path),
                            readonly=True, lock=False, readahead=False, meminit=False)
       self.txn = self.env.begin(write=False, buffers=True)
       self.length = pickle.loads(self.txn.get(b'__len__'))
       self.keys = pickle.loads(self.txn.get(b'__keys__'))
  \<close>
  The object is mutated statement by statement, so an exception leaves the attributes
  assigned before it: the handle and the world are returned in every case.
\<close>

definition open_lmdb :: "'img libs \<Rightarrow> 'img handle \<Rightarrow> world \<Rightarrow> (error + unit) \<times> 'img handle \<times> world" where
  "open_lmdb L h w =
     (case fs w (db_path h) of
        None \<Rightarrow> (Inl LmdbError, h, w)
      | Some a \<Rightarrow>
          (let w' = w\<lparr>opens := opens w + 1\<rparr>;
               h1 = h\<lparr>env := Some (opens w)\<rparr>;
               h2 = h1\<lparr>txn := Some a\<rparr>
           in case loads L (a ''__len__'') of
                Inl e \<Rightarrow> (Inl e, h2, w')
              | Inr n \<Rightarrow>
                  (let h3 = h2\<lparr>length_attr := n\<rparr>
                   in case loads L (a ''__keys__'') of
                        Inl e \<Rightarrow> (Inl e, h3, w')
                      | Inr ks \<Rightarrow> (Inr (), h3\<lparr>keys := ks\<rparr>, w'))))"

text \<open>
  Lines 49 to 60 of \<^verbatim>\<open>__getitem__\<close>, on the transaction \<open>t\<close> and the key found:
  \<^verbatim>\<open>
      byteflow = self.txn.get(self.keys[index])
      unpacked = pickle.loads(byteflow)
      imgbuf = unpacked[0]
      buf = io.BytesIO()
      buf.write(imgbuf[0])
      buf.seek(0)
      img = Image.open(buf).convert('RGB')
      target = unpacked[1]
  \<close>
  \<^verbatim>\<open>txn.get\<close> and \<^verbatim>\<open>buf.write\<close> raise TypeError on an argument that is not bytes.
\<close>

definition read_record :: "'img libs \<Rightarrow> archive \<Rightarrow> pyobj \<Rightarrow> error + ('img \<times> pyobj)" where
  "read_record L t key =
     (case key of
        PyBytes k \<Rightarrow>
          (case loads L (t k) of
             Inl e \<Rightarrow> Inl e
           | Inr unpacked \<Rightarrow>
               (case subscript unpacked 0 of
                  Inl e \<Rightarrow> Inl e
                | Inr imgbuf \<Rightarrow>
                    (case subscript imgbuf 0 of
                       Inl e \<Rightarrow> Inl e
                     | Inr (PyBytes b) \<Rightarrow>
                         (case image_open L b of
                            None \<Rightarrow> Inl UnidentifiedImageError
                          | Some img \<Rightarrow>
                              (case subscript unpacked 1 of
                                 Inl e \<Rightarrow> Inl e
                               | Inr target \<Rightarrow> Inr (img, target)))
                     | Inr _ \<Rightarrow> Inl TypeError)))
      | _ \<Rightarrow> Inl TypeError)"

text \<open>
  Lines 62 to 66:
  \<^verbatim>\<open>
      if self.transform is not None:
          img = self.transform(img)
      if self.target_transform is not None:
          target = self.target_transform(target)
  \<close>
\<close>

definition apply_transforms :: "'img handle \<Rightarrow> nat \<Rightarrow> 'img \<times> pyobj \<Rightarrow> ('img \<times> pyobj) \<times> nat" where
  "apply_transforms h g s =
     (let (img, g1) = (case transform h of None \<Rightarrow> (fst s, g) | Some f \<Rightarrow> f g (fst s));
          (target, g2) = (case target_transform h of None \<Rightarrow> (snd s, g1) | Some f \<Rightarrow> f g1 (snd s))
      in ((img, target), g2))"

text \<open>
  \<^verbatim>\<open>
  def __getitem__(self, index):
      if not hasattr(self, 'txn'):
          self.open_lmdb()
      ...
      return img, target
  \<close>
  An exception of \<^verbatim>\<open>open_lmdb\<close> ends the call. Reading \<^verbatim>\<open>self.txn\<close> on an object
  without that attribute would raise AttributeError.
\<close>

definition getitem ::
  "'img libs \<Rightarrow> 'img handle \<Rightarrow> int \<Rightarrow> world \<Rightarrow> (error + ('img \<times> pyobj)) \<times> 'img handle \<times> world" where
  "getitem L h index w =
     (let (r, h1, w1) = (if txn h = None then open_lmdb L h w else (Inr (), h, w)) in
      case r of
        Inl e \<Rightarrow> (Inl e, h1, w1)
      | Inr u \<Rightarrow>
          (case txn h1 of
             None \<Rightarrow> (Inl AttributeError, h1, w1)
           | Some t \<Rightarrow>
               (case subscript (keys h1) index of
                  Inl e \<Rightarrow> (Inl e, h1, w1)
                | Inr key \<Rightarrow>
                    (case read_record L t key of
                       Inl e \<Rightarrow> (Inl e, h1, w1)
                     | Inr s \<Rightarrow>
                         (let (s', g) = apply_transforms h1 (rng w1) s
                          in (Inr s', h1, w1\<lparr>rng := g\<rparr>))))))"

text \<open>\<^verbatim>\<open>def __len__(self): return self.length\<close>\<close>

definition len_dataset :: "'img handle \<Rightarrow> pyobj" where
  "len_dataset h = length_attr h"

text \<open>Successive calls of \<^verbatim>\<open>__getitem__\<close> on one object, as a worker makes them.\<close>

fun getitems ::
  "'img libs \<Rightarrow> 'img handle \<Rightarrow> int list \<Rightarrow> world \<Rightarrow> (error + ('img \<times> pyobj)) list \<times> 'img handle \<times> world" where
  "getitems L h [] w = ([], h, w)"
| "getitems L h (i # idxs) w =
     (let (r, h1, w1) = getitem L h i w;
          (rs, h2, w2) = getitems L h1 idxs w1
      in (r # rs, h2, w2))"

section \<open>Specification vocabulary for the dataset\<close>

text \<open>
  \<open>attached L h w a ks\<close>: the handle \<open>h\<close> serves the archive \<open>a\<close>, a well-formed
  archive whose key sequence is \<open>ks\<close>. The count stored under \<^verbatim>\<open>__len__\<close> is the
  number of keys; an unopened handle finds \<open>a\<close> at its path, an opened one holds a
  transaction on \<open>a\<close> and the values loaded from it.
\<close>

definition attached :: "'img libs \<Rightarrow> 'img handle \<Rightarrow> world \<Rightarrow> archive \<Rightarrow> bytes list \<Rightarrow> bool" where
  "attached L h w a ks =
     (loads L (a ''__len__'') = Inr (PyInt (int (length ks)))
      \<and> loads L (a ''__keys__'') = Inr (PyList (map PyBytes ks))
      \<and> (case txn h of
           None \<Rightarrow> fs w (db_path h) = Some a
         | Some t \<Rightarrow> t = a \<and> keys h = PyList (map PyBytes ks)
                      \<and> length_attr h = PyInt (int (length ks))))"

text \<open>
  The sample of the record under key \<open>k\<close>: the decoded record with the handle's
  transforms applied, the generator being in state \<open>g\<close>.
\<close>

definition sample_of :: "'img libs \<Rightarrow> 'img handle \<Rightarrow> archive \<Rightarrow> nat \<Rightarrow> bytes \<Rightarrow> error + ('img \<times> pyobj)" where
  "sample_of L h a g k =
     (case read_record L a (PyBytes k) of
        Inl e \<Rightarrow> Inl e
      | Inr s \<Rightarrow> Inr (fst (apply_transforms h g s)))"

text \<open>A handle whose transforms return the same value whatever the generator's state.\<close>

definition stateless :: "'img handle \<Rightarrow> bool" where
  "stateless h =
     ((case transform h of None \<Rightarrow> True | Some f \<Rightarrow> \<forall>g g' x. fst (f g x) = fst (f g' x))
      \<and> (case target_transform h of None \<Rightarrow> True | Some f \<Rightarrow> \<forall>g g' x. fst (f g x) = fst (f g' x)))"

text \<open>
  \<open>reads L h w a\<close>: \<open>h\<close> is a handle on the archive \<open>a\<close>, and \<open>a\<close> is unchanged. The
  index of \<open>a\<close> can be loaded and the handle's keys are the ones \<open>a\<close> stores, as after
  construction on \<open>a\<close>; an unopened handle finds \<open>a\<close> at its path, an opened one holds
  a transaction on \<open>a\<close>.
\<close>

definition reads :: "'img libs \<Rightarrow> 'img handle \<Rightarrow> world \<Rightarrow> archive \<Rightarrow> bool" where
  "reads L h w a =
     (\<not> isl (loads L (a ''__len__''))
      \<and> loads L (a ''__keys__'') = Inr (keys h)
      \<and> (case txn h of None \<Rightarrow> fs w (db_path h) = Some a | Some t \<Rightarrow> t = a))"

section \<open>An example archive\<close>

text \<open>
  A three-sample archive with its decoders, used to run the definitions on concrete
  inputs: keys \<^verbatim>\<open>b'0'\<close>, \<^verbatim>\<open>b'1'\<close>, \<^verbatim>\<open>b'2'\<close>, images of one row and two pixels, labels
  7, 8 and 9.
\<close>

definition demo_archive :: archive where
  "demo_archive = map_of
     [(''__len__'', ''n3''), (''__keys__'', ''k012''),
      (''0'', ''r0''), (''1'', ''r1''), (''2'', ''r2'')]"

definition demo_loads :: "bytes \<Rightarrow> pyobj option" where
  "demo_loads = map_of
     [(''n3'', PyInt 3),
      (''n1'', PyInt 1),
      (''k012'', PyList [PyBytes ''0'', PyBytes ''1'', PyBytes ''2'']),
      (''k2'', PyList [PyBytes ''2'']),
      (''r0'', PyTuple [PyTuple [PyBytes ''img0''], PyInt 7]),
      (''r1'', PyTuple [PyTuple [PyBytes ''img1''], PyInt 8]),
      (''r2'', PyTuple [PyTuple [PyBytes ''img2''], PyInt 9])]"

definition demo_image_open :: "bytes \<Rightarrow> nat list list option" where
  "demo_image_open = map_of
     [(''img0'', [[1, 2]]), (''img1'', [[3, 4]]), (''img2'', [[5, 6]])]"

definition demo_libs :: "nat list list libs" where
  "demo_libs = \<lparr>pickle_loads = demo_loads, image_open = demo_image_open, clock = (\<lambda>k. Finite (of_nat k))\<rparr>"

definition demo_world :: world where
  "demo_world = \<lparr>fs = (\<lambda>p. if p = ''train.lmdb'' then Some demo_archive else None),
                  opens = 0, rng = 0, now = 0\<rparr>"

definition demo_handle :: "nat list list handle" where
  "demo_handle = \<lparr>db_path = ''train.lmdb'', transform = None, target_transform = None,
     length_attr = PyInt 3, keys = PyList [PyBytes ''0'', PyBytes ''1'', PyBytes ''2''],
     env = None, txn = None\<rparr>"

text \<open>
  A randomized transform of the kind \<^verbatim>\<open>main\<close> configures
  (\<^verbatim>\<open>transforms.RandomHorizontalFlip()\<close>): it draws once from the random generator
  and mirrors every row of the image when the draw says so. The draw is the parity of
  the generator's state, and drawing advances the state.
\<close>

definition random_hflip :: "nat \<Rightarrow> nat list list \<Rightarrow> nat list list \<times> nat" where
  "random_hflip g img = (if even g then map rev img else img, Suc g)"

text \<open>
  A later content of the same path, with one sample; and a store that can be opened
  but holds no entry.
\<close>

definition demo_small_archive :: archive where
  "demo_small_archive = map_of [(''__len__'', ''n1''), (''__keys__'', ''k2''), (''2'', ''r2'')]"

definition demo_later_world :: world where
  "demo_later_world = \<lparr>fs = (\<lambda>p. if p = ''train.lmdb'' then Some demo_small_archive else None),
                        opens = 1, rng = 0, now = 0\<rparr>"

definition demo_empty_world :: world where
  "demo_empty_world = \<lparr>fs = (\<lambda>p. if p = ''train.lmdb'' then Some Map.empty else None),
                        opens = 0, rng = 0, now = 0\<rparr>"

definition demo_flip_handle :: "nat list list handle" where
  "demo_flip_handle = demo_handle\<lparr>transform := Some random_hflip\<rparr>"

text \<open>A later state of the file system in which the archive has been removed.\<close>

definition demo_removed_world :: world where
  "demo_removed_world = \<lparr>fs = (\<lambda>p. None), opens = 1, rng = 0, now = 0\<rparr>"

section \<open>train and main\<close>

text \<open>
  The libraries \<^verbatim>\<open>main\<close> and \<^verbatim>\<open>train\<close> call are parameters, collected in \<open>torch\<close>:
  \<^item> \<open>image_folder\<close> is \<^verbatim>\<open>torchvision.datasets.ImageFolder(dir, transform)\<close>, which
    returns a dataset or raises;
  \<^item> \<open>configured_transform\<close> is the \<^verbatim>\<open>transforms.Compose([...])\<close> that \<^verbatim>\<open>main\<close> passes
    to both datasets;
  \<^item> \<open>loader_iter\<close> is one iteration over the \<^verbatim>\<open>DataLoader\<close> of a dataset, started with
    the random generator in a given state: the items it yields in order, each a batch
    or the exception raised in its place, and the generator's new state;
  \<^item> \<open>np_mean\<close> is \<^verbatim>\<open>np.mean\<close> on a list of numbers.
  The model, the criterion and the optimizer act on the batches only; their calls do
  not touch the two meters \<^verbatim>\<open>train\<close> returns and are left out.
\<close>

datatype ('img, 'f) dataset = LmdbDataset "'img handle" | FolderDataset 'f

record ('img, 'f, 'b) torch =
  image_folder :: "string \<Rightarrow> error + 'f"
  configured_transform :: "nat \<Rightarrow> 'img \<Rightarrow> 'img \<times> nat"
  loader_iter :: "('img, 'f) dataset \<Rightarrow> nat \<Rightarrow> (error + 'b) list \<times> nat"
  np_mean :: "pynum list \<Rightarrow> pynum"

text \<open>\<^verbatim>\<open>time.time()\<close>: the next reading of the clock, a float.\<close>

definition time :: "'img libs \<Rightarrow> world \<Rightarrow> float64 \<times> world" where
  "time L w = (clock L (now w), w\<lparr>now := now w + 1\<rparr>)"

text \<open>
  The loop of \<^verbatim>\<open>train\<close> over the items of the loader:
  \<^verbatim>\<open>
      for i, (input, target) in enumerate(train_loader):
          data_time.update(time.time() - end)
          ...
          batch_time.update(time.time() - end)
          end = time.time()
  \<close>
\<close>

fun train_loop ::
  "'img libs \<Rightarrow> (error + 'b) list \<Rightarrow> float64 \<Rightarrow> meter \<Rightarrow> meter \<Rightarrow> world \<Rightarrow> error + (meter \<times> meter \<times> world)" where
  "train_loop L [] end_t batch_time data_time w = Inr (batch_time, data_time, w)"
| "train_loop L (Inl e # items) end_t batch_time data_time w = Inl e"
| "train_loop L (Inr b # items) end_t batch_time data_time w =
     (case update data_time (NFloat (fsub (fst (time L w)) end_t)) 1 of
        Inl e \<Rightarrow> Inl e
      | Inr data_time' \<Rightarrow>
          (case update batch_time (NFloat (fsub (fst (time L (snd (time L w)))) end_t)) 1 of
             Inl e \<Rightarrow> Inl e
           | Inr batch_time' \<Rightarrow>
               train_loop L items (fst (time L (snd (time L (snd (time L w))))))
                 batch_time' data_time' (snd (time L (snd (time L (snd (time L w))))))))"

text \<open>
  \<^verbatim>\<open>
  def train(train_loader, model, criterion, optimizer, device, epoch=0):
      batch_time = AverageMeter()
      data_time = AverageMeter()
      ...
      end = time.time()
      for i, (input, target) in enumerate(train_loader):
          ...
      return batch_time, data_time
  \<close>
\<close>

definition train ::
  "('img, 'f, 'b) torch \<Rightarrow> 'img libs \<Rightarrow> ('img, 'f) dataset \<Rightarrow> world \<Rightarrow> error + (meter \<times> meter \<times> world)" where
  "train T L ds w =
     (let batch_time = AverageMeter;
          data_time = AverageMeter;
          (end_t, w0) = time L w;
          (items, g) = loader_iter T ds (rng w0)
      in train_loop L items end_t batch_time data_time (w0\<lparr>rng := g\<rparr>))"

text \<open>
  The timed passes of \<^verbatim>\<open>main\<close>, with the four accumulators:
  \<^verbatim>\<open>
      batch_time_avg, data_time_avg = list(), list()
      batch_time_sum, data_time_sum = 0, 0
      for _ in range(10):
          batch_time, data_time = train(train_loader, model, criterion, optimizer, device)
          batch_time_avg.append(batch_time.avg)
          data_time_avg.append(data_time.avg)
          batch_time_sum += batch_time.sum
          data_time_sum += data_time.sum
  \<close>
  The two sums start as the int 0 and are added to with Python's \<^verbatim>\<open>+\<close>.
\<close>

fun passes ::
  "('img, 'f, 'b) torch \<Rightarrow> 'img libs \<Rightarrow> ('img, 'f) dataset \<Rightarrow> nat \<Rightarrow>
   pynum list \<times> pynum list \<times> pynum \<times> pynum \<Rightarrow> world \<Rightarrow>
   error + ((pynum list \<times> pynum list \<times> pynum \<times> pynum) \<times> world)" where
  "passes T L ds 0 acc w = Inr (acc, w)"
| "passes T L ds (Suc k) (batch_time_avg, data_time_avg, batch_time_sum, data_time_sum) w =
     (case train T L ds w of
        Inl e \<Rightarrow> Inl e
      | Inr (batch_time, data_time, w') \<Rightarrow>
          (case py_add batch_time_sum (sum_m batch_time) of
             Inl e \<Rightarrow> Inl e
           | Inr batch_time_sum' \<Rightarrow>
               (case py_add data_time_sum (sum_m data_time) of
                  Inl e \<Rightarrow> Inl e
                | Inr data_time_sum' \<Rightarrow>
                    passes T L ds k
                      (batch_time_avg @ [avg batch_time], data_time_avg @ [avg data_time],
                       batch_time_sum', data_time_sum') w')))"

text \<open>What \<^verbatim>\<open>main\<close> prints for one backend: its name and the four numbers.\<close>

record summary =
  backend :: string
  avg_data_time :: pynum
  avg_batch_time :: pynum
  total_data_time :: pynum
  total_batch_time :: pynum

definition DBS :: "string list" where
  "DBS = [''lmdb'', ''imagefolder'']"

text \<open>
  \<^verbatim>\<open>
      if dataset_type == 'lmdb':
          train_dataset = ImageFolderLMDB(lmdb_data_db, transforms.Compose([...]))
      else:
          train_dataset = torchvision.datasets.ImageFolder(imagefolder_data_dir,
                                                           transforms.Compose([...]))
  \<close>
\<close>

definition make_dataset ::
  "('img, 'f, 'b) torch \<Rightarrow> 'img libs \<Rightarrow> string \<Rightarrow> string \<Rightarrow> string \<Rightarrow> world \<Rightarrow>
   (error + ('img, 'f) dataset) \<times> world" where
  "make_dataset T L imagefolder_data_dir lmdb_data_db dataset_type w =
     (if dataset_type = ''lmdb'' then
        (case init L lmdb_data_db (Some (configured_transform T)) None w of
           (Inl e, w') \<Rightarrow> (Inl e, w')
         | (Inr h, w') \<Rightarrow> (Inr (LmdbDataset h), w'))
      else
        (case image_folder T imagefolder_data_dir of
           Inl e \<Rightarrow> (Inl e, w)
         | Inr f \<Rightarrow> (Inr (FolderDataset f), w)))"

text \<open>
  The loop \<^verbatim>\<open>for dataset_type in DBS\<close> of \<^verbatim>\<open>main\<close>. No statement of \<^verbatim>\<open>main\<close> is
  inside a \<^verbatim>\<open>try\<close>: an exception ends the program. The result is that exception, if
  any, and the summaries printed so far.
\<close>

fun main_loop ::
  "('img, 'f, 'b) torch \<Rightarrow> 'img libs \<Rightarrow> string \<Rightarrow> string \<Rightarrow> string list \<Rightarrow>
   summary list \<Rightarrow> world \<Rightarrow> error option \<times> summary list" where
  "main_loop T L imagefolder_data_dir lmdb_data_db [] out w = (None, out)"
| "main_loop T L imagefolder_data_dir lmdb_data_db (dataset_type # rest) out w =
     (case make_dataset T L imagefolder_data_dir lmdb_data_db dataset_type w of
        (Inl e, w1) \<Rightarrow> (Some e, out)
      | (Inr train_dataset, w1) \<Rightarrow>
          (case passes T L train_dataset 10 ([], [], NInt 0, NInt 0) w1 of
             Inl e \<Rightarrow> (Some e, out)
           | Inr ((batch_time_avg, data_time_avg, batch_time_sum, data_time_sum), w2) \<Rightarrow>
               main_loop T L imagefolder_data_dir lmdb_data_db rest
                 (out @ [\<lparr>backend = dataset_type,
                           avg_data_time = np_mean T data_time_avg,
                           avg_batch_time = np_mean T batch_time_avg,
                           total_data_time = data_time_sum,
                           total_batch_time = batch_time_sum\<rparr>]) w2))"

definition main ::
  "('img, 'f, 'b) torch \<Rightarrow> 'img libs \<Rightarrow> string \<Rightarrow> string \<Rightarrow> world \<Rightarrow> error option \<times> summary list" where
  "main T L imagefolder_data_dir lmdb_data_db w =
     main_loop T L imagefolder_data_dir lmdb_data_db DBS [] w"

text \<open>
  The results of \<open>k\<close> successive passes, each the pair \<open>(batch_time, data_time)\<close> that
  \<^verbatim>\<open>train\<close> returned.
\<close>

fun pass_results ::
  "('img, 'f, 'b) torch \<Rightarrow> 'img libs \<Rightarrow> ('img, 'f) dataset \<Rightarrow> nat \<Rightarrow> world \<Rightarrow>
   error + ((meter \<times> meter) list \<times> world)" where
  "pass_results T L ds 0 w = Inr ([], w)"
| "pass_results T L ds (Suc k) w =
     (case train T L ds w of
        Inl e \<Rightarrow> Inl e
      | Inr (batch_time, data_time, w') \<Rightarrow>
          (case pass_results T L ds k w' of
             Inl e \<Rightarrow> Inl e
           | Inr (rs, w'') \<Rightarrow> Inr ((batch_time, data_time) # rs, w'')))"

text \<open>
  The sum of a list of numbers, added one by one from \<open>s\<close> in Python's arithmetic,
  in the order of the list.
\<close>

fun py_sum_from :: "pynum \<Rightarrow> pynum list \<Rightarrow> error + pynum" where
  "py_sum_from s [] = Inr s"
| "py_sum_from s (x # xs) =
     (case py_add s x of Inl e \<Rightarrow> Inl e | Inr s' \<Rightarrow> py_sum_from s' xs)"

text \<open>
  The summary \<^verbatim>\<open>main\<close> is to print for a backend whose passes returned \<open>rs\<close>: the
  means of the passes' final averages, and the sums of the passes' sums.
\<close>

definition summary_of ::
  "('img, 'f, 'b) torch \<Rightarrow> string \<Rightarrow> (meter \<times> meter) list \<Rightarrow> error + summary" where
  "summary_of T b rs =
     (case py_sum_from (NInt 0) (map (\<lambda>r. sum_m (fst r)) rs) of
        Inl e \<Rightarrow> Inl e
      | Inr batch_sum \<Rightarrow>
          (case py_sum_from (NInt 0) (map (\<lambda>r. sum_m (snd r)) rs) of
             Inl e \<Rightarrow> Inl e
           | Inr data_sum \<Rightarrow>
               Inr \<lparr>backend = b,
                    avg_data_time = np_mean T (map (\<lambda>r. avg (snd r)) rs),
                    avg_batch_time = np_mean T (map (\<lambda>r. avg (fst r)) rs),
                    total_data_time = data_sum,
                    total_batch_time = batch_sum\<rparr>))"

section \<open>The batching pipeline\<close>

text \<open>
  Modelled from the spec: the batching pipeline is \<^verbatim>\<open>torch.utils.data.DataLoader\<close>,
  which \<^verbatim>\<open>main\<close> constructs with \<^verbatim>\<open>batch_size=BATCH_SIZE, shuffle=True\<close> and whose
  code is not under \<^verbatim>\<open>src/\<close>. By section 4.2 of the specification a pass visits the
  indices in an order, a random one without repetition when \<open>shuffle\<close> is set and the
  consecutive one otherwise, and groups them into batches of \<open>batch_size\<close>, the last
  batch taking what is left.
\<close>

definition index_order :: "bool \<Rightarrow> nat list \<Rightarrow> nat \<Rightarrow> nat list" where
  "index_order shuffle perm l = (if shuffle then perm else [0..<l])"

fun batch_sampler :: "nat \<Rightarrow> 'a list \<Rightarrow> 'a list \<Rightarrow> 'a list list" where
  "batch_sampler b [] batch = (if batch = [] then [] else [batch])"
| "batch_sampler b (idx # rest) batch =
     (if length (batch @ [idx]) = b then (batch @ [idx]) # batch_sampler b rest []
      else batch_sampler b rest (batch @ [idx]))"

definition for_each_pass :: "nat \<Rightarrow> bool \<Rightarrow> nat list \<Rightarrow> nat \<Rightarrow> nat list list" where
  "for_each_pass batch_size shuffle perm l = batch_sampler batch_size (index_order shuffle perm l) []"

definition BATCH_SIZE :: nat where
  "BATCH_SIZE = 128"

section \<open>An example run\<close>

text \<open>
  Libraries for running \<^verbatim>\<open>main\<close> on the example archive: the directory dataset can be
  constructed, the configured transform is the random flip, and every pass of a loader
  yields one batch. The clock advances by one second per reading. The mean of the
  example is the exact mean of the values, rounded once.
\<close>

fun finite_value :: "pynum \<Rightarrow> rat" where
  "finite_value (NInt i) = of_int i"
| "finite_value (NFloat (Finite x)) = x"
| "finite_value (NFloat (Infinity s)) = 0"
| "finite_value (NFloat NaN) = 0"

definition demo_mean :: "pynum list \<Rightarrow> pynum" where
  "demo_mean xs = NFloat (round_float (sum_list (map finite_value xs) / of_nat (length xs)))"

definition demo_torch :: "(nat list list, unit, unit) torch" where
  "demo_torch = \<lparr>image_folder = (\<lambda>d. Inr ()),
                  configured_transform = random_hflip,
                  loader_iter = (\<lambda>ds g. ([Inr ()], Suc g)),
                  np_mean = demo_mean\<rparr>"

section \<open>Properties of rounding\<close>

lemma bit_length_0: "bit_length 0 = 0" by (simp add: bit_length.simps)
lemma bit_length_1: "bit_length 1 = 1" "bit_length (Suc 0) = 1" by (simp_all add: bit_length.simps)
lemma bit_length_numeral: "bit_length (numeral k) = Suc (bit_length (numeral k div 2))"
  by (subst bit_length.simps) simp

lemma floor_rat_numeral:
  "\<lfloor>numeral a / numeral b :: rat\<rfloor> = numeral a div numeral b"
  "\<lfloor>1 / numeral b :: rat\<rfloor> = 1 div numeral b"
  "\<lceil>numeral a / numeral b :: rat\<rceil> = - (- numeral a div numeral b)"
  "\<lceil>1 / numeral b :: rat\<rceil> = - (- 1 div numeral b)"
proof -
  show "\<lfloor>numeral a / numeral b :: rat\<rfloor> = numeral a div numeral b"
    by (metis floor_divide_of_int_eq of_int_numeral)
  show "\<lfloor>1 / numeral b :: rat\<rfloor> = 1 div numeral b"
    by (metis floor_divide_of_int_eq of_int_numeral of_int_1)
  show "\<lceil>numeral a / numeral b :: rat\<rceil> = - (- numeral a div numeral b)"
    by (metis ceiling_divide_eq_div of_int_numeral)
  show "\<lceil>1 / numeral b :: rat\<rceil> = - (- 1 div numeral b)"
    by (metis ceiling_divide_eq_div of_int_numeral of_int_1)
qed

lemmas float_eval = round_float_def binade_def round_half_even_def pow2_def Let_def
  bit_length_0 bit_length_1 bit_length_numeral floor_rat_numeral


lemma bit_length_le: "n < 2 ^ k \<Longrightarrow> bit_length n \<le> k"
proof (induction k arbitrary: n)
  case 0
  then have "n = 0" by simp
  then show ?case by (simp add: bit_length_0)
next
  case (Suc k)
  show ?case
  proof (cases "n = 0")
    case True
    then show ?thesis by (simp add: bit_length_0)
  next
    case False
    from Suc.prems have "n div 2 < 2 ^ k" by simp
    from Suc.IH [OF this] have "bit_length (n div 2) \<le> k" .
    moreover have "bit_length n = Suc (bit_length (n div 2))"
      using False by (subst bit_length.simps) simp
    ultimately show ?thesis by simp
  qed
qed

lemma bit_length_pos: "0 < n \<Longrightarrow> 0 < bit_length n"
  by (subst bit_length.simps) simp

lemma pow2_pos: "0 < pow2 q"
  by (simp add: pow2_def)

lemma pow2_le_1: "q \<le> 0 \<Longrightarrow> pow2 q \<le> 1"
proof -
  assume q: "q \<le> 0"
  have "(1::rat) \<le> 2 ^ nat (- q)" by (rule one_le_power) simp
  then have "1 / 2 ^ nat (- q) \<le> (1::rat)" by (simp add: divide_le_eq)
  then show ?thesis using q by (cases "q = 0") (simp_all add: pow2_def)
qed

lemma round_half_even_of_int: "round_half_even (of_int k) = k"
  by (simp add: round_half_even_def)

lemma round_half_even_le: "of_int (round_half_even t) \<le> t + 1"
proof -
  have f: "of_int \<lfloor>t\<rfloor> \<le> t" by (rule of_int_floor_le)
  have "round_half_even t \<le> \<lfloor>t\<rfloor> + 1" by (simp add: round_half_even_def Let_def)
  then have "(of_int (round_half_even t) :: rat) \<le> of_int (\<lfloor>t\<rfloor> + 1)" by (simp only: of_int_le_iff)
  then show ?thesis using f by linarith
qed

lemma binade_le:
  assumes "0 < x" and "x < 2 ^ k"
  shows "binade x \<le> int k - 1 \<or> binade x \<le> 0"
proof (cases "1 \<le> x")
  case True
  have "\<lfloor>x\<rfloor> < 2 ^ k" using assms(2) by (simp add: floor_less_iff)
  moreover have "0 \<le> \<lfloor>x\<rfloor>" using True by simp
  ultimately have "nat \<lfloor>x\<rfloor> < 2 ^ k" by (simp add: nat_less_iff)
  then have "bit_length (nat \<lfloor>x\<rfloor>) \<le> k" by (rule bit_length_le)
  then show ?thesis using True by (simp add: binade_def)
next
  case False
  then show ?thesis by (simp add: binade_def)
qed

lemma round_float_finite:
  assumes "\<bar>x\<bar> < 2 ^ 53"
  shows "\<exists>y. round_float x = Finite y"
proof (cases "x = 0")
  case True
  then show ?thesis by (simp add: round_float_def)
next
  case False
  define q where "q = max (binade \<bar>x\<bar> - 52) (- 1074)"
  define t where "t = \<bar>x\<bar> / pow2 q"
  define y where "y = of_int (round_half_even t) * pow2 q"
  have pos: "0 < \<bar>x\<bar>" using False by simp
  from binade_le [OF pos assms] have "binade \<bar>x\<bar> \<le> 52" by auto
  then have q0: "q \<le> 0" by (simp add: q_def)
  have p1: "pow2 q \<le> 1" using q0 by (rule pow2_le_1)
  have tq: "t * pow2 q = \<bar>x\<bar>" using pow2_pos [of q] by (simp add: t_def)
  have "y \<le> (t + 1) * pow2 q"
    unfolding y_def using round_half_even_le [of t] pow2_pos [of q]
    by (intro mult_right_mono) simp_all
  also have "\<dots> = \<bar>x\<bar> + pow2 q" using tq by (simp add: algebra_simps)
  also have "\<dots> < 2 ^ 53 + 1" using assms p1 by linarith
  finally have "y < 2 ^ 53 + 1" .
  moreover have "(2::rat) ^ 53 + 1 \<le> 2 ^ 1024" by simp
  ultimately have "\<not> 2 ^ 1024 \<le> y" by linarith
  then show ?thesis using False
    by (simp add: round_float_def Let_def q_def [symmetric] t_def [symmetric] y_def [symmetric])
qed

lemma pow2_nonpos: "q \<le> 0 \<Longrightarrow> pow2 q * 2 ^ nat (- q) = 1"
  by (cases "q = 0") (simp_all add: pow2_def)

lemma round_float_of_int:
  assumes "\<bar>i\<bar> < 2 ^ 53"
  shows "round_float (of_int i) = Finite (of_int i)"
proof (cases "i = 0")
  case True
  then show ?thesis by (simp add: round_float_def)
next
  case False
  define n where "n = nat \<bar>i\<bar>"
  have n: "0 < n" "int n = \<bar>i\<bar>" using False by (simp_all add: n_def)
  have "n < 2 ^ 53" using assms n(2) by (simp add: n_def nat_less_iff)
  then have b1: "bit_length n \<le> 53" by (rule bit_length_le)
  have b0: "0 < bit_length n" using n(1) by (rule bit_length_pos)
  have ax: "\<bar>rat_of_int i\<bar> = of_int \<bar>i\<bar>" by simp
  have "1 \<le> \<bar>i\<bar>" using False by linarith
  then have "(of_int 1 :: rat) \<le> of_int \<bar>i\<bar>" by (simp only: of_int_le_iff)
  then have one: "1 \<le> (of_int \<bar>i\<bar> :: rat)" by simp
  have bin: "binade (of_int \<bar>i\<bar>) = int (bit_length n) - 1"
  proof -
    have "binade (of_int \<bar>i\<bar>) = int (bit_length (nat \<lfloor>(of_int \<bar>i\<bar> :: rat)\<rfloor>)) - 1"
      using one by (simp only: binade_def if_True)
    then show ?thesis by (simp only: floor_of_int n_def)
  qed
  define q where "q = int (bit_length n) - 53"
  have q: "q \<le> 0" "- 1074 \<le> q" using b0 b1 by (simp_all add: q_def)
  have mq: "max (binade (of_int \<bar>i\<bar>) - 52) (- 1074) = q" using q bin by (simp add: q_def)
  have t: "of_int \<bar>i\<bar> / pow2 q = (of_int (\<bar>i\<bar> * 2 ^ nat (- q)) :: rat)"
  proof -
    have "of_int \<bar>i\<bar> = (of_int (\<bar>i\<bar> * 2 ^ nat (- q)) :: rat) * pow2 q"
      using pow2_nonpos [OF q(1)] by (simp add: mult.assoc mult.commute [of "pow2 q"])
    then show ?thesis using pow2_pos [of q] by (simp add: divide_eq_eq)
  qed
  have y: "of_int (round_half_even (of_int \<bar>i\<bar> / pow2 q)) * pow2 q = (of_int \<bar>i\<bar> :: rat)"
    unfolding t round_half_even_of_int
    using pow2_nonpos [OF q(1)] by (simp add: mult.assoc mult.commute [of "pow2 q"])
  have lt: "\<not> (2::rat) ^ 1024 \<le> of_int \<bar>i\<bar>"
  proof -
    have "(of_int \<bar>i\<bar> :: rat) < of_int (2 ^ 53)" using assms by (simp only: of_int_less_iff)
    moreover have "(of_int (2 ^ 53) :: rat) \<le> 2 ^ 1024" by simp
    ultimately show ?thesis by linarith
  qed
  have sg: "sgn (rat_of_int i) * of_int \<bar>i\<bar> = of_int i"
    by (cases "0 < i") (use False in \<open>simp_all add: sgn_if\<close>)
  have nz: "rat_of_int i \<noteq> 0" using False by simp
  show ?thesis
    unfolding round_float_def Let_def ax mq y
    using nz lt sg by simp
qed

section \<open>Properties of AverageMeter\<close>

lemma total_weight_Cons: "total_weight ((v, n) # xs) = n + total_weight xs"
  by (simp add: total_weight_def)

lemma average_from_Cons:
  assumes "py_mul v (NInt n) = Inr pr" and "py_add s pr = Inr s'"
  shows "average_from s c ((v, n) # xs) = average_from s' (c + n) xs"
proof (cases "accumulate s' xs")
  case (Inl e)
  then show ?thesis using assms by (simp add: average_from_def)
next
  case (Inr t)
  then show ?thesis using assms by (simp add: average_from_def total_weight_Cons add.assoc)
qed

lemma updates_general:
  "updates m xs = Inr m' \<Longrightarrow>
     val m' = (if xs = [] then val m else fst (last xs))
     \<and> accumulate (sum_m m) xs = Inr (sum_m m')
     \<and> count_m m' = count_m m + total_weight xs
     \<and> (xs \<noteq> [] \<longrightarrow> py_truediv (sum_m m') (NInt (count_m m')) = Inr (avg m'))
     \<and> length (avg_values m') = length (avg_values m) + length xs
     \<and> (\<forall>j < length xs. average_from (sum_m m) (count_m m) (take (Suc j) xs)
            = Inr (avg_values m' ! (length (avg_values m) + j)))
     \<and> take (length (avg_values m)) (avg_values m') = avg_values m"
proof (induction xs arbitrary: m)
  case Nil
  then show ?case by (simp add: total_weight_def)
next
  case (Cons p xs)
  obtain v n where p: "p = (v, n)" by (cases p)
  from Cons.prems p obtain m1 where u: "update m v n = Inr m1" and r: "updates m1 xs = Inr m'"
    by (cases "update m v n") simp_all
  from u obtain pr s a where
    pr: "py_mul v (NInt n) = Inr pr" and s: "py_add (sum_m m) pr = Inr s"
    and a: "py_truediv s (NInt (count_m m + n)) = Inr a"
    and m1: "m1 = m\<lparr>val := v, sum_m := s, count_m := count_m m + n, avg := a,
               avg_values := avg_values m @ [a]\<rparr>"
    by (auto simp add: update_def Let_def split: sum.splits)
  note ih = Cons.IH [OF r]
  have f1: "val m1 = v" "sum_m m1 = s" "count_m m1 = count_m m + n" "avg m1 = a"
    "avg_values m1 = avg_values m @ [a]" by (simp_all add: m1)
  have v: "val m' = fst (last (p # xs))" using ih f1(1) p by simp
  have acc: "accumulate (sum_m m) (p # xs) = Inr (sum_m m')"
    using ih f1(2) pr s p by simp
  have cnt: "count_m m' = count_m m + total_weight (p # xs)"
    using ih f1(3) p by (simp add: total_weight_def)
  have av: "py_truediv (sum_m m') (NInt (count_m m')) = Inr (avg m')"
  proof (cases "xs = []")
    case True
    then show ?thesis using r a f1 by simp
  next
    case False
    then show ?thesis using ih by blast
  qed
  have len: "length (avg_values m') = length (avg_values m) + length (p # xs)"
    using ih f1(5) by simp
  have tk1: "take (Suc (length (avg_values m))) (avg_values m') = avg_values m @ [a]"
    using ih f1(5) by simp
  have tk: "take (length (avg_values m)) (avg_values m') = avg_values m"
  proof -
    have "take (length (avg_values m)) (avg_values m')
        = take (length (avg_values m)) (take (Suc (length (avg_values m))) (avg_values m'))"
      by (simp add: min_def)
    also have "\<dots> = take (length (avg_values m)) (avg_values m @ [a])" by (simp only: tk1)
    also have "\<dots> = avg_values m" by simp
    finally show ?thesis .
  qed
  have hd: "avg_values m' ! length (avg_values m) = a"
  proof -
    have "length (avg_values m) < Suc (length (avg_values m))" by simp
    then have "take (Suc (length (avg_values m))) (avg_values m') ! length (avg_values m)
        = avg_values m' ! length (avg_values m)" by (rule nth_take)
    then have "avg_values m' ! length (avg_values m) = (avg_values m @ [a]) ! length (avg_values m)"
      by (simp only: tk1)
    then show ?thesis by simp
  qed
  have nth: "\<forall>j < length (p # xs). average_from (sum_m m) (count_m m) (take (Suc j) (p # xs))
            = Inr (avg_values m' ! (length (avg_values m) + j))"
  proof (intro allI impI)
    fix j assume j: "j < length (p # xs)"
    show "average_from (sum_m m) (count_m m) (take (Suc j) (p # xs))
            = Inr (avg_values m' ! (length (avg_values m) + j))"
    proof (cases j)
      case 0
      then show ?thesis using pr s a hd p by (simp add: average_from_def total_weight_def)
    next
      case (Suc i)
      with j have i: "i < length xs" by simp
      from ih i have "average_from (sum_m m1) (count_m m1) (take (Suc i) xs)
            = Inr (avg_values m' ! (length (avg_values m1) + i))" by blast
      then show ?thesis using Suc p f1 average_from_Cons [OF pr s, of "count_m m" "take (Suc i) xs"]
        by simp
    qed
  qed
  from v acc cnt av len nth tk show ?case by simp
qed

lemma to_float_int: "\<bar>i\<bar> < 2 ^ 53 \<Longrightarrow> to_float (NInt i) = Inr (Finite (of_int i))"
  by (simp add: round_float_of_int)

lemma to_float_small: "magnitude a < 2 ^ 53 \<Longrightarrow> \<exists>x. to_float a = Inr x"
  by (cases a) (simp_all add: round_float_of_int)

lemma py_mul_ok:
  assumes "\<bar>n\<bar> < 2 ^ 53"
  shows "\<exists>p. py_mul v (NInt n) = Inr p \<and> magnitude p = \<bar>int_part (v, n)\<bar>"
proof (cases v)
  case (NInt i)
  then show ?thesis by simp
next
  case (NFloat x)
  then show ?thesis using to_float_int [OF assms] by (simp add: float_op_def)
qed

lemma py_add_ok:
  assumes "magnitude a < 2 ^ 53" and "magnitude b < 2 ^ 53"
  shows "\<exists>r. py_add a b = Inr r \<and> magnitude r \<le> magnitude a + magnitude b"
proof (cases a)
  case a: (NInt i)
  show ?thesis
  proof (cases b)
    case (NInt j)
    then show ?thesis using a by simp
  next
    case (NFloat y)
    then show ?thesis using a to_float_small [OF assms(1)] by (auto simp add: float_op_def)
  qed
next
  case a: (NFloat x)
  show ?thesis using a to_float_small [OF assms(2)] by (cases b) (auto simp add: float_op_def)
qed

lemma py_truediv_ok:
  assumes "magnitude s < 2 ^ 53" and "1 \<le> c" and "c < 2 ^ 53"
  shows "\<exists>a. py_truediv s (NInt c) = Inr a"
proof (cases s)
  case (NInt i)
  have c: "c \<noteq> 0" using assms(2) by simp
  have "\<bar>rat_of_int i / rat_of_int c\<bar> \<le> \<bar>rat_of_int i\<bar>"
  proof -
    have "1 \<le> \<bar>rat_of_int c\<bar>" using assms(2) by simp
    then have "\<bar>rat_of_int i\<bar> / \<bar>rat_of_int c\<bar> \<le> \<bar>rat_of_int i\<bar> / 1"
      by (intro divide_left_mono) simp_all
    then show ?thesis by simp
  qed
  moreover have "\<bar>rat_of_int i\<bar> < 2 ^ 53"
  proof -
    have "\<bar>i\<bar> < 2 ^ 53" using assms(1) NInt by simp
    then have "rat_of_int \<bar>i\<bar> < rat_of_int (2 ^ 53)" by (simp only: of_int_less_iff)
    then show ?thesis by simp
  qed
  ultimately have "\<bar>rat_of_int i / rat_of_int c\<bar> < 2 ^ 53" by linarith
  from round_float_finite [OF this] obtain y where "round_float (rat_of_int i / rat_of_int c) = Finite y"
    by blast
  then show ?thesis using NInt c by simp
next
  case (NFloat x)
  have "\<bar>c\<bar> < 2 ^ 53" using assms(2,3) by simp
  from to_float_int [OF this] have "to_float (NInt c) = Inr (Finite (of_int c))" .
  moreover have "Finite (rat_of_int c) \<noteq> Finite 0" using assms(2) by simp
  ultimately show ?thesis using NFloat by simp
qed

lemma total_weight_nonneg: "\<forall>p \<in> set xs. 1 \<le> snd p \<Longrightarrow> 0 \<le> total_weight xs"
  by (induction xs) (auto simp add: total_weight_def)

lemma int_mass_nonneg: "0 \<le> int_mass xs"
  by (induction xs) (simp_all add: int_mass_def)

lemma int_mass_Cons: "int_mass (p # xs) = \<bar>int_part p\<bar> + int_mass xs"
  by (simp add: int_mass_def)

lemma updates_succeed:
  assumes "\<forall>p \<in> set xs. 1 \<le> snd p"
    and "0 \<le> count_m m"
    and "count_m m + total_weight xs < 2 ^ 53"
    and "magnitude (sum_m m) + int_mass xs < 2 ^ 53"
  shows "\<exists>m'. updates m xs = Inr m'"
  using assms
proof (induction xs arbitrary: m)
  case Nil
  then show ?case by simp
next
  case (Cons p xs)
  obtain v n where p: "p = (v, n)" by (cases p)
  have n1: "1 \<le> n" using Cons.prems(1) p by simp
  have all: "\<forall>p \<in> set xs. 1 \<le> snd p" using Cons.prems(1) by simp
  have tw: "0 \<le> total_weight xs" using all by (rule total_weight_nonneg)
  have im: "0 \<le> int_mass xs" by (rule int_mass_nonneg)
  have c: "count_m m + n + total_weight xs < 2 ^ 53"
    using Cons.prems(3) p by (simp add: total_weight_Cons)
  have ms: "magnitude (sum_m m) + \<bar>int_part (v, n)\<bar> + int_mass xs < 2 ^ 53"
    using Cons.prems(4) p by (simp add: int_mass_Cons)
  have nb: "\<bar>n\<bar> < 2 ^ 53" using n1 c tw Cons.prems(2) by linarith
  from py_mul_ok [OF nb, of v] obtain pr where
    pr: "py_mul v (NInt n) = Inr pr" "magnitude pr = \<bar>int_part (v, n)\<bar>" by blast
  have mg: "0 \<le> magnitude (sum_m m)" by (cases "sum_m m") simp_all
  have a1: "magnitude (sum_m m) < 2 ^ 53" using ms im by linarith
  have a2: "magnitude pr < 2 ^ 53" using ms im mg pr(2) by linarith
  from py_add_ok [OF a1 a2] obtain s where
    s: "py_add (sum_m m) pr = Inr s" "magnitude s \<le> magnitude (sum_m m) + magnitude pr" by blast
  have s1: "magnitude s < 2 ^ 53" using s(2) pr(2) ms im by linarith
  have c1: "1 \<le> count_m m + n" using n1 Cons.prems(2) by linarith
  have c2: "count_m m + n < 2 ^ 53" using c tw by linarith
  from py_truediv_ok [OF s1 c1 c2] obtain a where
    a: "py_truediv s (NInt (count_m m + n)) = Inr a" by blast
  define m1 where "m1 = m\<lparr>val := v, sum_m := s, count_m := count_m m + n, avg := a,
               avg_values := avg_values m @ [a]\<rparr>"
  have u: "update m v n = Inr m1" using pr(1) s(1) a by (simp add: update_def Let_def m1_def)
  have i1: "0 \<le> count_m m1" using c1 by (simp add: m1_def)
  have i2: "count_m m1 + total_weight xs < 2 ^ 53" using c by (simp add: m1_def)
  have i3: "magnitude (sum_m m1) + int_mass xs < 2 ^ 53"
    using s(2) pr(2) ms by (simp add: m1_def)
  from Cons.IH [OF all i1 i2 i3] obtain m' where "updates m1 xs = Inr m'" by blast
  then show ?case using u p by simp
qed

lemma accumulate_ints:
  "\<forall>p \<in> set xs. \<exists>i. fst p = NInt i \<Longrightarrow>
   accumulate (NInt s) xs = Inr (NInt (s + exact_sum xs))"
proof (induction xs arbitrary: s)
  case Nil
  then show ?case by (simp add: exact_sum_def)
next
  case (Cons p xs)
  obtain v n where p: "p = (v, n)" by (cases p)
  from Cons.prems p obtain i where i: "v = NInt i" by auto
  have "\<forall>p \<in> set xs. \<exists>i. fst p = NInt i" using Cons.prems by simp
  from Cons.IH [OF this, of "s + i * n"] show ?case
    using p i by (simp add: exact_sum_def add.assoc)
qed

lemma round_float_examples:
  "round_float 1 = Finite 1"
  "round_float (1 / 2) = Finite (1 / 2)"
  "round_float 3 = Finite 3"
  "round_float 6 = Finite 6"
  "round_float (13 / 2) = Finite (13 / 2)"
  "round_float (13 / 6) = Finite (4878899596318037 / 2251799813685248)"
  "round_float (1 / 3) = Finite (6004799503160661 / 18014398509481984)"
  by (simp_all add: float_eval)

text \<open>
  Claim C8, as the code has it. \<^verbatim>\<open>reset()\<close> puts a meter in the zero state. After
  \<open>k\<close> calls \<^verbatim>\<open>update(v_i, n_i)\<close> from that state that have all returned, the current
  value is the last \<open>v\<close>, the count is the sum of the \<open>n_i\<close>, the sum is the sum of
  the products \<open>v_i * n_i\<close> accumulated call by call in Python's arithmetic (the exact
  sum when every value is an int), the average is what Python's \<^verbatim>\<open>sum / count\<close>
  returns, and the history has \<open>k\<close> entries, the \<open>j\<close>-th being the average after the
  first \<open>j + 1\<close> calls. The calls all return when every \<open>n_i\<close> is at least 1 and the
  ints involved stay below \<open>2^53\<close>.
\<close>

theorem average_meter_updates:
  "reset m0 = \<lparr>val = NInt 0, avg = NInt 0, sum_m = NInt 0, count_m = 0, avg_values = []\<rparr>
   \<and> ((\<forall>p \<in> set xs. 1 \<le> snd p) \<and> total_weight xs < 2 ^ 53 \<and> int_mass xs < 2 ^ 53 \<longrightarrow>
        (\<exists>m. updates (reset m0) xs = Inr m))
   \<and> (\<forall>m. updates (reset m0) xs = Inr m \<longrightarrow>
        (xs \<noteq> [] \<longrightarrow> val m = fst (last xs))
        \<and> python_sum xs = Inr (sum_m m)
        \<and> ((\<forall>p \<in> set xs. \<exists>i. fst p = NInt i) \<longrightarrow> sum_m m = NInt (exact_sum xs))
        \<and> count_m m = total_weight xs
        \<and> (xs \<noteq> [] \<longrightarrow> py_truediv (sum_m m) (NInt (count_m m)) = Inr (avg m))
        \<and> length (avg_values m) = length xs
        \<and> (\<forall>j < length xs. python_avg (take (Suc j) xs) = Inr (avg_values m ! j)))"
proof (intro conjI allI impI)
  show "reset m0 = \<lparr>val = NInt 0, avg = NInt 0, sum_m = NInt 0, count_m = 0, avg_values = []\<rparr>"
    by (simp add: reset_def)
next
  assume a: "(\<forall>p \<in> set xs. 1 \<le> snd p) \<and> total_weight xs < 2 ^ 53 \<and> int_mass xs < 2 ^ 53"
  have "0 \<le> count_m (reset m0)" by (simp add: reset_def)
  moreover have "count_m (reset m0) + total_weight xs < 2 ^ 53" using a by (simp add: reset_def)
  moreover have "magnitude (sum_m (reset m0)) + int_mass xs < 2 ^ 53" using a by (simp add: reset_def)
  ultimately show "\<exists>m. updates (reset m0) xs = Inr m"
    using a by (intro updates_succeed) simp_all
next
  fix m assume u: "updates (reset m0) xs = Inr m"
  note g = updates_general [OF u]
  have z: "sum_m (reset m0) = NInt 0" "count_m (reset m0) = 0" "avg_values (reset m0) = []"
    by (simp_all add: reset_def)
  show s: "python_sum xs = Inr (sum_m m)" using g z by (simp add: python_sum_def)
  show "count_m m = total_weight xs" using g z by simp
  show "length (avg_values m) = length xs" using g z by simp
  { assume "xs \<noteq> []"
    then show "val m = fst (last xs)" using g by simp }
  { assume "xs \<noteq> []"
    then show "py_truediv (sum_m m) (NInt (count_m m)) = Inr (avg m)" using g by blast }
  { assume "\<forall>p \<in> set xs. \<exists>i. fst p = NInt i"
    from accumulate_ints [OF this, of 0] s show "sum_m m = NInt (exact_sum xs)"
      by (simp add: python_sum_def) }
  { fix j assume "j < length xs"
    then show "python_avg (take (Suc j) xs) = Inr (avg_values m ! j)"
      using g z by (simp add: python_avg_def) }
qed

theorem average_meter_updates_witness:
  "\<exists>m. updates (reset AverageMeter) [(NInt 3, 2), (NFloat (Finite (1 / 2)), 1)] = Inr m
     \<and> val m = NFloat (Finite (1 / 2))
     \<and> sum_m m = NFloat (Finite (13 / 2))
     \<and> count_m m = 3
     \<and> avg m = NFloat (Finite (4878899596318037 / 2251799813685248))
     \<and> length (avg_values m) = 2
     \<and> avg_values m ! 0 = NFloat (Finite 3)"
proof -
  let ?xs = "[(NInt 3, 2), (NFloat (Finite (1 / 2)), 1)] :: (pynum \<times> int) list"
  note t = average_meter_updates [of AverageMeter ?xs]
  have h: "(\<forall>p \<in> set ?xs. 1 \<le> snd p) \<and> total_weight ?xs < 2 ^ 53 \<and> int_mass ?xs < 2 ^ 53"
    by (simp add: total_weight_def int_mass_def)
  from t h obtain m where m: "updates (reset AverageMeter) ?xs = Inr m" by blast
  have ne: "?xs \<noteq> []" by simp
  from t m have p2: "python_sum ?xs = Inr (sum_m m)" by blast
  from t m have p3: "count_m m = total_weight ?xs" by blast
  from t m have p5: "length (avg_values m) = length ?xs" by blast
  from t m have p6: "\<forall>j < length ?xs. python_avg (take (Suc j) ?xs) = Inr (avg_values m ! j)"
    by blast
  from t m have "?xs \<noteq> [] \<longrightarrow> val m = fst (last ?xs)" by blast
  with ne have p1: "val m = fst (last ?xs)" by blast
  from t m have "?xs \<noteq> [] \<longrightarrow> py_truediv (sum_m m) (NInt (count_m m)) = Inr (avg m)" by blast
  with ne have p4: "py_truediv (sum_m m) (NInt (count_m m)) = Inr (avg m)" by blast
  have s: "sum_m m = NFloat (Finite (13 / 2))"
    using p2 by (simp add: python_sum_def float_op_def round_float_examples)
  have c: "count_m m = 3" using p3 by (simp add: total_weight_def)
  have a: "avg m = NFloat (Finite (4878899596318037 / 2251799813685248))"
    using p4 unfolding s c by (simp add: round_float_examples)
  have "(0::nat) < length ?xs" by simp
  with p6 have "python_avg (take (Suc 0) ?xs) = Inr (avg_values m ! 0)" by blast
  then have h0: "avg_values m ! 0 = NFloat (Finite 3)"
    by (simp add: python_avg_def average_from_def total_weight_def round_float_examples)
  have v: "val m = NFloat (Finite (1 / 2))" using p1 by simp
  have l: "length (avg_values m) = 2" using p5 by simp
  from m v s c a l h0 show ?thesis by blast
qed

text \<open>
  The claim as stated fails: the average is a float, not the exact quotient. After
  \<^verbatim>\<open>update(1, 1)\<close> and \<^verbatim>\<open>update(0, 2)\<close> the sum is 1 and the count is 3, and the
  average is the double nearest to one third, which is not one third.
\<close>

theorem average_not_exact_counterexample:
  "\<exists>m. updates (reset AverageMeter) [(NInt 1, 1), (NInt 0, 2)] = Inr m
     \<and> sum_m m = NInt 1 \<and> count_m m = 3
     \<and> avg m = NFloat (Finite (6004799503160661 / 18014398509481984))
     \<and> (6004799503160661 / 18014398509481984 :: rat) \<noteq> 1 / 3"
  by (simp add: update_def reset_def AverageMeter_def round_float_examples)

section \<open>Properties of the batching pipeline\<close>

lemma ceiling_div_nat:
  assumes "0 < b"
  shows "\<lceil>rat_of_nat l / rat_of_nat b\<rceil> = int ((l + b - 1) div b)"
proof -
  define q where "q = (l + b - 1) div b"
  have 1: "q * b \<le> l + b - 1" by (simp add: q_def)
  have 2: "l + b - 1 < b + q * b" unfolding q_def using assms by (rule dividend_less_div_times)
  have le: "l \<le> q * b" using 2 assms by linarith
  have lt: "q * b < l + b" using 1 assms by linarith
  have b: "0 < rat_of_nat b" using assms by simp
  have "rat_of_nat l \<le> rat_of_nat (q * b)" using le by (simp only: of_nat_le_iff)
  then have u: "rat_of_nat l / rat_of_nat b \<le> of_int (int q)"
    using b by (simp add: divide_le_eq)
  have "rat_of_nat (q * b) < rat_of_nat (l + b)" using lt by (simp only: of_nat_less_iff)
  then have "(rat_of_nat q - 1) * rat_of_nat b < rat_of_nat l"
    by (simp add: algebra_simps)
  then have l: "of_int (int q) - 1 < rat_of_nat l / rat_of_nat b"
    using b by (simp add: less_divide_eq)
  show ?thesis unfolding q_def [symmetric] using l u by (rule ceiling_unique)
qed

lemma concat_batch_sampler: "concat (batch_sampler b xs acc) = acc @ xs"
  by (induction xs arbitrary: acc) simp_all

lemma batch_sampler_sizes:
  "length acc < b \<Longrightarrow> c \<in> set (batch_sampler b xs acc) \<Longrightarrow> 0 < length c \<and> length c \<le> b"
proof (induction xs arbitrary: acc)
  case Nil
  then show ?case by (cases "acc = []") simp_all
next
  case (Cons x xs)
  show ?case
  proof (cases "Suc (length acc) = b")
    case True
    with Cons.prems(2) have "c = acc @ [x] \<or> c \<in> set (batch_sampler b xs [])" by simp
    then show ?thesis
    proof
      assume "c = acc @ [x]"
      then show ?thesis using True by simp
    next
      assume c: "c \<in> set (batch_sampler b xs [])"
      have "length ([]::'a list) < b" using True by simp
      from Cons.IH [OF this c] show ?thesis .
    qed
  next
    case False
    with Cons.prems(1) have l: "length (acc @ [x]) < b" by simp
    from False Cons.prems(2) have c: "c \<in> set (batch_sampler b xs (acc @ [x]))" by simp
    from Cons.IH [OF l c] show ?thesis .
  qed
qed

lemma batch_sampler_full:
  "length acc < b \<Longrightarrow> c \<in> set (butlast (batch_sampler b xs acc)) \<Longrightarrow> length c = b"
proof (induction xs arbitrary: acc)
  case Nil
  then show ?case by (cases "acc = []") simp_all
next
  case (Cons x xs)
  show ?case
  proof (cases "Suc (length acc) = b")
    case True
    have e: "length ([]::'a list) < b" using True by simp
    from True have s: "batch_sampler b (x # xs) acc = (acc @ [x]) # batch_sampler b xs []" by simp
    from Cons.prems(2) have "c = acc @ [x] \<or> c \<in> set (butlast (batch_sampler b xs []))"
      unfolding s by (simp split: if_splits)
    then show ?thesis
    proof
      assume "c = acc @ [x]"
      then show ?thesis using True by simp
    next
      assume "c \<in> set (butlast (batch_sampler b xs []))"
      from Cons.IH [OF e this] show ?thesis .
    qed
  next
    case False
    with Cons.prems(1) have l: "length (acc @ [x]) < b" by simp
    from False Cons.prems(2) have c: "c \<in> set (butlast (batch_sampler b xs (acc @ [x])))" by simp
    from Cons.IH [OF l c] show ?thesis .
  qed
qed

lemma batch_count_last:
  "0 < length acc \<Longrightarrow> length acc < b \<Longrightarrow> (length acc + b - 1) div b = (1::nat)"
proof (rule div_nat_eqI)
  assume a: "0 < length acc" "length acc < b"
  show "b * 1 \<le> length acc + b - 1" using a by linarith
  have "b * Suc 1 = b + b" by simp
  then show "length acc + b - 1 < b * Suc 1" using a by linarith
qed

lemma batch_count_step:
  "Suc (length acc) = b \<Longrightarrow>
   (length acc + length (x # xs) + b - 1) div b = Suc ((length xs + b - 1) div b)"
proof -
  assume t: "Suc (length acc) = b"
  have "length (x # xs) = Suc (length xs)" by simp
  then have "length acc + length (x # xs) + b - 1 = (length xs + b - 1) + b"
    using t by linarith
  moreover have "(length xs + b - 1 + b) div b = (length xs + b - 1) div b + 1"
    using t by (intro div_add_self2) linarith
  ultimately show ?thesis by (simp only: Suc_eq_plus1)
qed

lemma length_batch_sampler:
  "length acc < b \<Longrightarrow> length (batch_sampler b xs acc) = (length acc + length xs + b - 1) div b"
proof (induction xs arbitrary: acc)
  case Nil
  show ?case
  proof (cases "acc = []")
    case True
    have "(b - 1) div b = 0" using Nil by (intro div_less) linarith
    then show ?thesis using True by simp
  next
    case False
    then have "0 < length acc" by simp
    from batch_count_last [OF this Nil] show ?thesis using False by simp
  qed
next
  case (Cons x xs)
  show ?case
  proof (cases "Suc (length acc) = b")
    case True
    have e: "length ([]::'a list) < b" using True by simp
    from True have s: "batch_sampler b (x # xs) acc = (acc @ [x]) # batch_sampler b xs []" by simp
    have "length (batch_sampler b xs []) = (length xs + b - 1) div b"
      using Cons.IH [OF e] by simp
    then have "length (batch_sampler b (x # xs) acc) = Suc ((length xs + b - 1) div b)"
      by (simp only: s list.size)
    then show ?thesis by (simp only: batch_count_step [OF True])
  next
    case False
    with Cons.prems have l: "length (acc @ [x]) < b" by simp
    from False have s: "batch_sampler b (x # xs) acc = batch_sampler b xs (acc @ [x])" by simp
    have "length (acc @ [x]) + length xs = length acc + length (x # xs)" by simp
    then show ?thesis using Cons.IH [OF l] by (simp only: s)
  qed
qed

text \<open>
  Claim C4. For every dataset length \<open>l\<close>, every positive batch size \<open>b\<close> and every
  visiting order that is a permutation of the indices below \<open>l\<close>, one pass yields
  exactly \<open>ceil(l / b)\<close> batches; every batch but the last has \<open>b\<close> indices and no
  batch is empty or larger than \<open>b\<close>; and the indices of all the batches together are
  \<open>0, ..., l - 1\<close>, each exactly once.
\<close>

theorem pipeline_batches:
  assumes "0 < b" and "mset perm = mset [0..<l]"
  shows "int (length (for_each_pass b shuffle perm l)) = \<lceil>rat_of_nat l / rat_of_nat b\<rceil>
    \<and> (\<forall>j. Suc j < length (for_each_pass b shuffle perm l) \<longrightarrow>
          length (for_each_pass b shuffle perm l ! j) = b)
    \<and> (\<forall>c \<in> set (for_each_pass b shuffle perm l). 0 < length c \<and> length c \<le> b)
    \<and> mset (concat (for_each_pass b shuffle perm l)) = mset [0..<l]
    \<and> distinct (concat (for_each_pass b shuffle perm l))"
proof -
  let ?order = "index_order shuffle perm l"
  let ?bs = "for_each_pass b shuffle perm l"
  have e: "length ([]::nat list) < b" using assms(1) by simp
  have bs: "?bs = batch_sampler b ?order []" by (simp only: for_each_pass_def)
  have m: "mset ?order = mset [0..<l]" using assms(2) by (simp add: index_order_def)
  have "size (mset ?order) = size (mset [0..<l])" by (simp only: m)
  then have len: "length ?order = l" by simp
  have "distinct ?order \<longleftrightarrow> distinct [0..<l]" using m by (rule mset_eq_imp_distinct_iff)
  then have d: "distinct ?order" by simp
  have c: "concat ?bs = ?order" by (simp only: bs concat_batch_sampler append_Nil)
  have "length ?bs = (length ([]::nat list) + length ?order + b - 1) div b"
    unfolding bs using e by (rule length_batch_sampler)
  then have "length ?bs = (l + b - 1) div b" by (simp only: len list.size add_0)
  then have n: "int (length ?bs) = \<lceil>rat_of_nat l / rat_of_nat b\<rceil>"
    by (simp only: ceiling_div_nat [OF assms(1)])
  have j: "\<forall>j. Suc j < length ?bs \<longrightarrow> length (?bs ! j) = b"
  proof (intro allI impI)
    fix j assume "Suc j < length ?bs"
    then have i: "j < length (butlast ?bs)" by simp
    then have "butlast ?bs ! j \<in> set (butlast ?bs)" by (rule nth_mem)
    then have "length (butlast ?bs ! j) = b"
      unfolding bs using e by (intro batch_sampler_full)
    then show "length (?bs ! j) = b" using i by (simp only: nth_butlast)
  qed
  have k: "\<forall>c \<in> set ?bs. 0 < length c \<and> length c \<le> b"
    unfolding bs using e by (intro ballI batch_sampler_sizes)
  have cm: "mset (concat ?bs) = mset [0..<l]" by (simp only: c m)
  have cd: "distinct (concat ?bs)" by (simp only: c d)
  from n j k cm cd show ?thesis by blast
qed

theorem pipeline_batches_witness:
  "for_each_pass 2 True [3, 0, 4, 1, 2] 5 = [[3, 0], [4, 1], [2]]
   \<and> int (length (for_each_pass 2 True [3, 0, 4, 1, 2] 5)) = 3
   \<and> mset (concat (for_each_pass 2 True [3, 0, 4, 1, 2] 5)) = mset [0..<5]
   \<and> distinct (concat (for_each_pass 2 True [3, 0, 4, 1, 2] 5))"
proof -
  have b: "0 < (2::nat)" by simp
  have u: "[0..<5] = [0, 1, 2, 3, 4::nat]" by (simp add: upt_rec)
  have p: "mset [3, 0, 4, 1, 2] = mset [0..<5::nat]" unfolding u by simp
  have v: "for_each_pass 2 True [3, 0, 4, 1, 2] 5 = [[3, 0], [4, 1], [2]]"
    by (simp add: for_each_pass_def index_order_def)
  have c: "\<lceil>rat_of_nat 5 / rat_of_nat 2\<rceil> = 3" by (simp add: ceiling_eq_iff)
  note t = pipeline_batches [OF b p, of True]
  from t c have n: "int (length (for_each_pass 2 True [3, 0, 4, 1, 2] 5)) = 3" by simp
  from t have m: "mset (concat (for_each_pass 2 True [3, 0, 4, 1, 2] 5)) = mset [0..<5]" by blast
  from t have d: "distinct (concat (for_each_pass 2 True [3, 0, 4, 1, 2] 5))" by blast
  from v n m d show ?thesis by blast
qed

section \<open>Properties of the driver\<close>

lemma round_float_numeral:
  "numeral k < (2::int) ^ 53 \<Longrightarrow> round_float (numeral k) = Finite (numeral k)"
  using round_float_of_int [of "numeral k"] by simp

lemma round_float_0: "round_float 0 = Finite 0"
  by (simp add: round_float_def)

lemma length_pass_results:
  "pass_results T L ds k w = Inr (rs, w') \<Longrightarrow> length rs = k"
proof (induction k arbitrary: w rs)
  case 0
  then show ?case by simp
next
  case (Suc k)
  then show ?case by (auto split: sum.splits prod.splits)
qed

lemma passes_results:
  "passes T L ds k (a, b, c, d) w = Inr (acc, w') \<Longrightarrow>
   \<exists>rs c' d'. pass_results T L ds k w = Inr (rs, w')
     \<and> py_sum_from c (map (\<lambda>r. sum_m (fst r)) rs) = Inr c'
     \<and> py_sum_from d (map (\<lambda>r. sum_m (snd r)) rs) = Inr d'
     \<and> acc = (a @ map (\<lambda>r. avg (fst r)) rs, b @ map (\<lambda>r. avg (snd r)) rs, c', d')"
proof (induction k arbitrary: a b c d w)
  case 0
  then show ?case by simp
next
  case (Suc k)
  from Suc.prems obtain bt dt w1 c1 d1 where s:
    "train T L ds w = Inr (bt, dt, w1)"
    "py_add c (sum_m bt) = Inr c1" "py_add d (sum_m dt) = Inr d1"
    "passes T L ds k (a @ [avg bt], b @ [avg dt], c1, d1) w1 = Inr (acc, w')"
    by (auto split: sum.splits prod.splits)
  from Suc.IH [OF s(4)] obtain rs c' d' where r:
    "pass_results T L ds k w1 = Inr (rs, w')"
    "py_sum_from c1 (map (\<lambda>r. sum_m (fst r)) rs) = Inr c'"
    "py_sum_from d1 (map (\<lambda>r. sum_m (snd r)) rs) = Inr d'"
    "acc = ((a @ [avg bt]) @ map (\<lambda>r. avg (fst r)) rs, (b @ [avg dt]) @ map (\<lambda>r. avg (snd r)) rs, c', d')"
    by blast
  show ?case
    using s(1,2,3) r
    by (intro exI [of _ "(bt, dt) # rs"] exI [of _ c'] exI [of _ d']) simp
qed

lemma results_passes:
  "pass_results T L ds k w = Inr (rs, w') \<Longrightarrow>
   py_sum_from c (map (\<lambda>r. sum_m (fst r)) rs) = Inr c' \<Longrightarrow>
   py_sum_from d (map (\<lambda>r. sum_m (snd r)) rs) = Inr d' \<Longrightarrow>
   passes T L ds k (a, b, c, d) w =
     Inr ((a @ map (\<lambda>r. avg (fst r)) rs, b @ map (\<lambda>r. avg (snd r)) rs, c', d'), w')"
proof (induction k arbitrary: a b c d w rs)
  case 0
  then show ?case by simp
next
  case (Suc k)
  from Suc.prems(1) obtain bt dt w1 rs0 where s:
    "train T L ds w = Inr (bt, dt, w1)" "pass_results T L ds k w1 = Inr (rs0, w')"
    "rs = (bt, dt) # rs0"
    by (auto split: sum.splits prod.splits)
  from Suc.prems(2) s(3) obtain c1 where c1:
    "py_add c (sum_m bt) = Inr c1" "py_sum_from c1 (map (\<lambda>r. sum_m (fst r)) rs0) = Inr c'"
    by (auto split: sum.splits)
  from Suc.prems(3) s(3) obtain d1 where d1:
    "py_add d (sum_m dt) = Inr d1" "py_sum_from d1 (map (\<lambda>r. sum_m (snd r)) rs0) = Inr d'"
    by (auto split: sum.splits)
  from Suc.IH [OF s(2) c1(2) d1(2), of "a @ [avg bt]" "b @ [avg dt]"]
  show ?case using s(1,3) c1(1) d1(1) by simp
qed

lemma passes_summary:
  "(\<exists>ba da bs dsum. passes T L ds k ([], [], NInt 0, NInt 0) w = Inr ((ba, da, bs, dsum), w')
      \<and> s = \<lparr>backend = b, avg_data_time = np_mean T da, avg_batch_time = np_mean T ba,
              total_data_time = dsum, total_batch_time = bs\<rparr>)
   \<longleftrightarrow> (\<exists>rs. pass_results T L ds k w = Inr (rs, w') \<and> summary_of T b rs = Inr s)"
proof
  assume "\<exists>ba da bs dsum. passes T L ds k ([], [], NInt 0, NInt 0) w = Inr ((ba, da, bs, dsum), w')
      \<and> s = \<lparr>backend = b, avg_data_time = np_mean T da, avg_batch_time = np_mean T ba,
              total_data_time = dsum, total_batch_time = bs\<rparr>"
  then obtain ba da bs dsum where p:
    "passes T L ds k ([], [], NInt 0, NInt 0) w = Inr ((ba, da, bs, dsum), w')"
    "s = \<lparr>backend = b, avg_data_time = np_mean T da, avg_batch_time = np_mean T ba,
              total_data_time = dsum, total_batch_time = bs\<rparr>" by blast
  from passes_results [OF p(1)] obtain rs c' d' where r:
    "pass_results T L ds k w = Inr (rs, w')"
    "py_sum_from (NInt 0) (map (\<lambda>r. sum_m (fst r)) rs) = Inr c'"
    "py_sum_from (NInt 0) (map (\<lambda>r. sum_m (snd r)) rs) = Inr d'"
    "(ba, da, bs, dsum) = ([] @ map (\<lambda>r. avg (fst r)) rs, [] @ map (\<lambda>r. avg (snd r)) rs, c', d')"
    by blast
  have "summary_of T b rs = Inr s" using r(2,3,4) p(2) by (simp add: summary_of_def)
  with r(1) show "\<exists>rs. pass_results T L ds k w = Inr (rs, w') \<and> summary_of T b rs = Inr s"
    by blast
next
  assume "\<exists>rs. pass_results T L ds k w = Inr (rs, w') \<and> summary_of T b rs = Inr s"
  then obtain rs where r: "pass_results T L ds k w = Inr (rs, w')" "summary_of T b rs = Inr s"
    by blast
  from r(2) obtain c' d' where cd:
    "py_sum_from (NInt 0) (map (\<lambda>r. sum_m (fst r)) rs) = Inr c'"
    "py_sum_from (NInt 0) (map (\<lambda>r. sum_m (snd r)) rs) = Inr d'"
    "s = \<lparr>backend = b, avg_data_time = np_mean T (map (\<lambda>r. avg (snd r)) rs),
          avg_batch_time = np_mean T (map (\<lambda>r. avg (fst r)) rs),
          total_data_time = d', total_batch_time = c'\<rparr>"
    by (auto simp add: summary_of_def split: sum.splits)
  from results_passes [OF r(1) cd(1) cd(2), of "[]" "[]"] cd(3)
  show "\<exists>ba da bs dsum. passes T L ds k ([], [], NInt 0, NInt 0) w = Inr ((ba, da, bs, dsum), w')
      \<and> s = \<lparr>backend = b, avg_data_time = np_mean T da, avg_batch_time = np_mean T ba,
              total_data_time = dsum, total_batch_time = bs\<rparr>"
    by simp
qed

lemma main_loop_open_fails:
  "fst (make_dataset T L imf ldb b w) = Inl e \<Longrightarrow>
   main_loop T L imf ldb (b # rest) out w = (Some e, out)"
  by (cases "make_dataset T L imf ldb b w") (simp split: sum.splits)

lemma main_loop_step:
  "main_loop T L imf ldb (b # rest) out w = (None, out') \<longleftrightarrow>
   (\<exists>ds w1 rs w2 s. make_dataset T L imf ldb b w = (Inr ds, w1)
     \<and> pass_results T L ds 10 w1 = Inr (rs, w2) \<and> summary_of T b rs = Inr s
     \<and> main_loop T L imf ldb rest (out @ [s]) w2 = (None, out'))"
proof
  assume a: "main_loop T L imf ldb (b # rest) out w = (None, out')"
  obtain r w1 where m: "make_dataset T L imf ldb b w = (r, w1)" by (cases "make_dataset T L imf ldb b w")
  from a m obtain ds where ds: "r = Inr ds" by (cases r) simp_all
  from a m ds obtain ba da bs dsum w2 where p:
    "passes T L ds 10 ([], [], NInt 0, NInt 0) w1 = Inr ((ba, da, bs, dsum), w2)"
    by (cases "passes T L ds 10 ([], [], NInt 0, NInt 0) w1") auto
  define s where "s = \<lparr>backend = b, avg_data_time = np_mean T da, avg_batch_time = np_mean T ba,
              total_data_time = dsum, total_batch_time = bs\<rparr>"
  have n: "main_loop T L imf ldb rest (out @ [s]) w2 = (None, out')"
    using a m ds p by (simp add: s_def)
  from passes_summary [of T L ds 10 w1 w2 s b] p s_def
  obtain rs where "pass_results T L ds 10 w1 = Inr (rs, w2)" "summary_of T b rs = Inr s"
    by blast
  with m ds n show "\<exists>ds w1 rs w2 s. make_dataset T L imf ldb b w = (Inr ds, w1)
     \<and> pass_results T L ds 10 w1 = Inr (rs, w2) \<and> summary_of T b rs = Inr s
     \<and> main_loop T L imf ldb rest (out @ [s]) w2 = (None, out')" by blast
next
  assume "\<exists>ds w1 rs w2 s. make_dataset T L imf ldb b w = (Inr ds, w1)
     \<and> pass_results T L ds 10 w1 = Inr (rs, w2) \<and> summary_of T b rs = Inr s
     \<and> main_loop T L imf ldb rest (out @ [s]) w2 = (None, out')"
  then obtain ds w1 rs w2 s where r: "make_dataset T L imf ldb b w = (Inr ds, w1)"
    "pass_results T L ds 10 w1 = Inr (rs, w2)" "summary_of T b rs = Inr s"
    "main_loop T L imf ldb rest (out @ [s]) w2 = (None, out')" by blast
  from passes_summary [of T L ds 10 w1 w2 s b] r(2,3)
  obtain ba da bs dsum where p:
    "passes T L ds 10 ([], [], NInt 0, NInt 0) w1 = Inr ((ba, da, bs, dsum), w2)"
    "s = \<lparr>backend = b, avg_data_time = np_mean T da, avg_batch_time = np_mean T ba,
              total_data_time = dsum, total_batch_time = bs\<rparr>" by blast
  show "main_loop T L imf ldb (b # rest) out w = (None, out')"
    using r(1,4) p by simp
qed


lemma demo_train:
  "train demo_torch demo_libs ds w =
     Inr (\<lparr>val = NFloat (Finite 2), avg = NFloat (Finite 2), sum_m = NFloat (Finite 2),
           count_m = 1, avg_values = [NFloat (Finite 2)]\<rparr>,
          \<lparr>val = NFloat (Finite 1), avg = NFloat (Finite 1), sum_m = NFloat (Finite 1),
           count_m = 1, avg_values = [NFloat (Finite 1)]\<rparr>,
          w\<lparr>now := now w + 4, rng := Suc (rng w)\<rparr>)"
  by (simp add: train_def demo_torch_def demo_libs_def time_def update_def AverageMeter_def
      reset_def Let_def fsub_def float_op_def round_float_examples round_float_numeral
      round_float_0)

lemma demo_passes:
  "\<exists>w'. passes demo_torch demo_libs ds 10 ([], [], NInt 0, NInt 0) w =
      Inr ((replicate 10 (NFloat (Finite 2)), replicate 10 (NFloat (Finite 1)),
            NFloat (Finite 20), NFloat (Finite 10)), w')"
  by (simp add: eval_nat_numeral demo_train float_op_def round_float_examples
      round_float_numeral round_float_0)

lemma demo_main:
  "main demo_torch demo_libs ''images'' ''train.lmdb'' demo_world =
     (None, [\<lparr>backend = ''lmdb'', avg_data_time = NFloat (Finite 1),
               avg_batch_time = NFloat (Finite 2),
               total_data_time = NFloat (Finite 10), total_batch_time = NFloat (Finite 20)\<rparr>,
             \<lparr>backend = ''imagefolder'', avg_data_time = NFloat (Finite 1),
               avg_batch_time = NFloat (Finite 2),
               total_data_time = NFloat (Finite 10), total_batch_time = NFloat (Finite 20)\<rparr>])"
proof -
  have m1: "\<exists>h w1. make_dataset demo_torch demo_libs ''images'' ''train.lmdb'' ''lmdb'' demo_world
      = (Inr (LmdbDataset h), w1)"
    by (simp add: make_dataset_def init_def loads_def demo_world_def demo_archive_def
        demo_libs_def demo_loads_def)
  have m2: "\<And>w. make_dataset demo_torch demo_libs ''images'' ''train.lmdb'' ''imagefolder'' w
      = (Inr (FolderDataset ()), w)"
    by (simp add: make_dataset_def demo_torch_def)
  from m1 obtain h w1 where h: "make_dataset demo_torch demo_libs ''images'' ''train.lmdb'' ''lmdb'' demo_world
      = (Inr (LmdbDataset h), w1)" by blast
  from demo_passes obtain w2 where p1:
    "passes demo_torch demo_libs (LmdbDataset h) 10 ([], [], NInt 0, NInt 0) w1 =
      Inr ((replicate 10 (NFloat (Finite 2)), replicate 10 (NFloat (Finite 1)),
            NFloat (Finite 20), NFloat (Finite 10)), w2)" by blast
  from demo_passes obtain w3 where p2:
    "passes demo_torch demo_libs (FolderDataset ()) 10 ([], [], NInt 0, NInt 0) w2 =
      Inr ((replicate 10 (NFloat (Finite 2)), replicate 10 (NFloat (Finite 1)),
            NFloat (Finite 20), NFloat (Finite 10)), w3)" by blast
  have n: "np_mean demo_torch (replicate 10 (NFloat (Finite 2))) = NFloat (Finite 2)"
    "np_mean demo_torch (replicate 10 (NFloat (Finite 1))) = NFloat (Finite 1)"
    by (simp_all add: demo_torch_def demo_mean_def sum_list_replicate round_float_examples
        round_float_numeral)
  show ?thesis
    by (simp add: main_def DBS_def h m2 p1 p2 n)
qed

text \<open>
  Claim C6, as the code has it. When the construction of a backend's dataset raises,
  the loop of \<^verbatim>\<open>main\<close> ends with that exception: nothing is printed for that backend
  or for the backends after it, and the summaries printed before stay. In particular,
  when the archive cannot be opened, \<^verbatim>\<open>main\<close> ends with the storage error and has
  printed nothing.
\<close>

theorem failed_backend_aborts_driver:
  "(fst (make_dataset T L imf ldb b w) = Inl e \<longrightarrow>
      main_loop T L imf ldb (b # rest) out w = (Some e, out))
   \<and> (fst (init L ldb (Some (configured_transform T)) None w) = Inl e \<longrightarrow>
      main T L imf ldb w = (Some e, []))"
proof (intro conjI impI)
  assume "fst (make_dataset T L imf ldb b w) = Inl e"
  then show "main_loop T L imf ldb (b # rest) out w = (Some e, out)"
    by (rule main_loop_open_fails)
next
  assume a: "fst (init L ldb (Some (configured_transform T)) None w) = Inl e"
  have "fst (make_dataset T L imf ldb ''lmdb'' w) = Inl e"
    using a by (cases "init L ldb (Some (configured_transform T)) None w")
      (simp add: make_dataset_def)
  then have "main_loop T L imf ldb (''lmdb'' # [''imagefolder'']) [] w = (Some e, [])"
    by (rule main_loop_open_fails)
  then show "main T L imf ldb w = (Some e, [])" by (simp add: main_def DBS_def)
qed

theorem failed_backend_aborts_driver_witness:
  "main demo_torch demo_libs ''images'' ''missing.lmdb'' demo_world = (Some LmdbError, [])
   \<and> main_loop demo_torch demo_libs ''images'' ''missing.lmdb'' [''lmdb'', ''imagefolder'']
        [] demo_world = (Some LmdbError, [])"
proof -
  have i: "fst (init demo_libs ''missing.lmdb'' (Some (configured_transform demo_torch)) None demo_world)
      = Inl LmdbError"
    by (simp add: init_def demo_world_def)
  have m: "fst (make_dataset demo_torch demo_libs ''images'' ''missing.lmdb'' ''lmdb'' demo_world)
      = Inl LmdbError"
    by (simp add: make_dataset_def init_def demo_world_def)
  note t = failed_backend_aborts_driver [of demo_torch demo_libs "''images''" "''missing.lmdb''"
      "''lmdb''" demo_world LmdbError "[''imagefolder'']" "[]"]
  from t i m show ?thesis by blast
qed

text \<open>
  The claim as stated fails: with no archive at the given path and a directory dataset
  that can be constructed, \<^verbatim>\<open>main\<close> ends with the storage error and no summary; the
  second backend is never run.
\<close>

theorem failed_backend_crashes_driver_counterexample:
  "fs demo_world ''missing.lmdb'' = None
   \<and> image_folder demo_torch ''images'' = Inr ()
   \<and> DBS = [''lmdb'', ''imagefolder'']
   \<and> main demo_torch demo_libs ''images'' ''missing.lmdb'' demo_world = (Some LmdbError, [])"
  by (simp add: main_def DBS_def make_dataset_def init_def demo_world_def demo_torch_def)

text \<open>
  Claim C7. \<^verbatim>\<open>main\<close> returns having printed \<open>out\<close> exactly when, starting from the
  world \<^verbatim>\<open>main\<close> is called in, the dataset of the first backend is constructed, 10
  successive passes of \<^verbatim>\<open>train\<close> on it return, their sums can be added up, the same
  holds for the second backend from the world the first one left, and \<open>out\<close> is the
  two summaries in that order. The summary of a backend comes from exactly these 10
  passes: its average data and batch times are \<^verbatim>\<open>np.mean\<close> of the 10 final averages of
  the passes' meters, and its totals are the sums of the 10 sums of those meters,
  added in the order of the passes.
\<close>

theorem driver_summary:
  "main T L imf ldb w = (None, out) \<longleftrightarrow>
   (\<exists>ds1 w1 rs1 w2 s1 ds2 w3 rs2 w4 s2.
      make_dataset T L imf ldb ''lmdb'' w = (Inr ds1, w1)
      \<and> pass_results T L ds1 10 w1 = Inr (rs1, w2) \<and> length rs1 = 10
      \<and> summary_of T ''lmdb'' rs1 = Inr s1
      \<and> make_dataset T L imf ldb ''imagefolder'' w2 = (Inr ds2, w3)
      \<and> pass_results T L ds2 10 w3 = Inr (rs2, w4) \<and> length rs2 = 10
      \<and> summary_of T ''imagefolder'' rs2 = Inr s2
      \<and> out = [s1, s2])"
proof
  assume "main T L imf ldb w = (None, out)"
  then have a: "main_loop T L imf ldb (''lmdb'' # [''imagefolder'']) [] w = (None, out)"
    by (simp add: main_def DBS_def)
  from a obtain ds1 w1 rs1 w2 s1 where f:
    "make_dataset T L imf ldb ''lmdb'' w = (Inr ds1, w1)"
    "pass_results T L ds1 10 w1 = Inr (rs1, w2)" "summary_of T ''lmdb'' rs1 = Inr s1"
    "main_loop T L imf ldb (''imagefolder'' # []) ([] @ [s1]) w2 = (None, out)"
    unfolding main_loop_step by blast
  from f(4) obtain ds2 w3 rs2 w4 s2 where g:
    "make_dataset T L imf ldb ''imagefolder'' w2 = (Inr ds2, w3)"
    "pass_results T L ds2 10 w3 = Inr (rs2, w4)" "summary_of T ''imagefolder'' rs2 = Inr s2"
    "main_loop T L imf ldb [] (([] @ [s1]) @ [s2]) w4 = (None, out)"
    unfolding main_loop_step by blast
  have o: "out = [s1, s2]" using g(4) by simp
  have l: "length rs1 = 10" "length rs2 = 10"
    using f(2) g(2) by (simp_all add: length_pass_results)
  from f(1,2,3) g(1,2,3) o l
  show "\<exists>ds1 w1 rs1 w2 s1 ds2 w3 rs2 w4 s2.
      make_dataset T L imf ldb ''lmdb'' w = (Inr ds1, w1)
      \<and> pass_results T L ds1 10 w1 = Inr (rs1, w2) \<and> length rs1 = 10
      \<and> summary_of T ''lmdb'' rs1 = Inr s1
      \<and> make_dataset T L imf ldb ''imagefolder'' w2 = (Inr ds2, w3)
      \<and> pass_results T L ds2 10 w3 = Inr (rs2, w4) \<and> length rs2 = 10
      \<and> summary_of T ''imagefolder'' rs2 = Inr s2
      \<and> out = [s1, s2]" by blast
next
  assume "\<exists>ds1 w1 rs1 w2 s1 ds2 w3 rs2 w4 s2.
      make_dataset T L imf ldb ''lmdb'' w = (Inr ds1, w1)
      \<and> pass_results T L ds1 10 w1 = Inr (rs1, w2) \<and> length rs1 = 10
      \<and> summary_of T ''lmdb'' rs1 = Inr s1
      \<and> make_dataset T L imf ldb ''imagefolder'' w2 = (Inr ds2, w3)
      \<and> pass_results T L ds2 10 w3 = Inr (rs2, w4) \<and> length rs2 = 10
      \<and> summary_of T ''imagefolder'' rs2 = Inr s2
      \<and> out = [s1, s2]"
  then obtain ds1 w1 rs1 w2 s1 ds2 w3 rs2 w4 s2 where r:
    "make_dataset T L imf ldb ''lmdb'' w = (Inr ds1, w1)"
    "pass_results T L ds1 10 w1 = Inr (rs1, w2)" "summary_of T ''lmdb'' rs1 = Inr s1"
    "make_dataset T L imf ldb ''imagefolder'' w2 = (Inr ds2, w3)"
    "pass_results T L ds2 10 w3 = Inr (rs2, w4)" "summary_of T ''imagefolder'' rs2 = Inr s2"
    "out = [s1, s2]" by blast
  have e: "main_loop T L imf ldb [] (([] @ [s1]) @ [s2]) w4 = (None, out)"
    using r(7) by simp
  have "main_loop T L imf ldb (''imagefolder'' # []) ([] @ [s1]) w2 = (None, out)"
    unfolding main_loop_step using r(4,5,6) e by blast
  then have "main_loop T L imf ldb (''lmdb'' # [''imagefolder'']) [] w = (None, out)"
    unfolding main_loop_step using r(1,2,3) by blast
  then show "main T L imf ldb w = (None, out)" by (simp add: main_def DBS_def)
qed

theorem driver_summary_witness:
  "\<exists>ds1 w1 rs1 w2 ds2 w3 rs2 w4.
      make_dataset demo_torch demo_libs ''images'' ''train.lmdb'' ''lmdb'' demo_world = (Inr ds1, w1)
      \<and> pass_results demo_torch demo_libs ds1 10 w1 = Inr (rs1, w2) \<and> length rs1 = 10
      \<and> summary_of demo_torch ''lmdb'' rs1 =
          Inr \<lparr>backend = ''lmdb'', avg_data_time = NFloat (Finite 1),
               avg_batch_time = NFloat (Finite 2),
               total_data_time = NFloat (Finite 10), total_batch_time = NFloat (Finite 20)\<rparr>
      \<and> make_dataset demo_torch demo_libs ''images'' ''train.lmdb'' ''imagefolder'' w2 = (Inr ds2, w3)
      \<and> pass_results demo_torch demo_libs ds2 10 w3 = Inr (rs2, w4) \<and> length rs2 = 10
      \<and> summary_of demo_torch ''imagefolder'' rs2 =
          Inr \<lparr>backend = ''imagefolder'', avg_data_time = NFloat (Finite 1),
               avg_batch_time = NFloat (Finite 2),
               total_data_time = NFloat (Finite 10), total_batch_time = NFloat (Finite 20)\<rparr>"
proof -
  from iffD1 [OF driver_summary demo_main]
  obtain ds1 w1 rs1 w2 s1 ds2 w3 rs2 w4 s2 where r:
    "make_dataset demo_torch demo_libs ''images'' ''train.lmdb'' ''lmdb'' demo_world = (Inr ds1, w1)"
    "pass_results demo_torch demo_libs ds1 10 w1 = Inr (rs1, w2)" "length rs1 = 10"
    "summary_of demo_torch ''lmdb'' rs1 = Inr s1"
    "make_dataset demo_torch demo_libs ''images'' ''train.lmdb'' ''imagefolder'' w2 = (Inr ds2, w3)"
    "pass_results demo_torch demo_libs ds2 10 w3 = Inr (rs2, w4)" "length rs2 = 10"
    "summary_of demo_torch ''imagefolder'' rs2 = Inr s2"
    "[\<lparr>backend = ''lmdb'', avg_data_time = NFloat (Finite 1),
               avg_batch_time = NFloat (Finite 2),
               total_data_time = NFloat (Finite 10), total_batch_time = NFloat (Finite 20)\<rparr>,
             \<lparr>backend = ''imagefolder'', avg_data_time = NFloat (Finite 1),
               avg_batch_time = NFloat (Finite 2),
               total_data_time = NFloat (Finite 10), total_batch_time = NFloat (Finite 20)\<rparr>] = [s1, s2]"
    by blast
  from r(9) have s: "s1 = \<lparr>backend = ''lmdb'', avg_data_time = NFloat (Finite 1),
               avg_batch_time = NFloat (Finite 2),
               total_data_time = NFloat (Finite 10), total_batch_time = NFloat (Finite 20)\<rparr>"
    "s2 = \<lparr>backend = ''imagefolder'', avg_data_time = NFloat (Finite 1),
               avg_batch_time = NFloat (Finite 2),
               total_data_time = NFloat (Finite 10), total_batch_time = NFloat (Finite 20)\<rparr>"
    by simp_all
  from r(1-8) show ?thesis unfolding s by blast
qed

section \<open>Properties of ImageFolderLMDB\<close>

lemma open_lmdb_connects:
  assumes "fs w (db_path h) = Some a"
  shows "txn (fst (snd (open_lmdb L h w))) = Some a"
    and "env (fst (snd (open_lmdb L h w))) = Some (opens w)"
    and "opens (snd (snd (open_lmdb L h w))) = opens w + 1"
    and "fs (snd (snd (open_lmdb L h w))) = fs w"
    and "db_path (fst (snd (open_lmdb L h w))) = db_path h"
  using assms by (simp_all add: open_lmdb_def Let_def split: sum.splits)

lemma open_lmdb_ok:
  assumes "fs w (db_path h) = Some a"
    and "loads L (a ''__len__'') = Inr n"
    and "loads L (a ''__keys__'') = Inr ks"
  shows "open_lmdb L h w =
     (Inr (), h\<lparr>env := Some (opens w), txn := Some a, length_attr := n, keys := ks\<rparr>,
      w\<lparr>opens := opens w + 1\<rparr>)"
  using assms by (simp add: open_lmdb_def Let_def)

lemma getitem_opened:
  assumes "txn h = Some t"
  shows "getitem L h i w =
     (case subscript (keys h) i of
        Inl e \<Rightarrow> (Inl e, h, w)
      | Inr key \<Rightarrow>
          (case read_record L t key of
             Inl e \<Rightarrow> (Inl e, h, w)
           | Inr s \<Rightarrow> (Inr (fst (apply_transforms h (rng w) s)), h,
                        w\<lparr>rng := snd (apply_transforms h (rng w) s)\<rparr>)))"
  using assms by (simp add: getitem_def split: sum.splits prod.splits)

lemma getitem_unopened:
  assumes "txn h = None"
  shows "getitem L h i w =
     (case open_lmdb L h w of
        (Inl e, h1, w1) \<Rightarrow> (Inl e, h1, w1)
      | (Inr u, h1, w1) \<Rightarrow> getitem L h1 i w1)"
proof (cases "fs w (db_path h)")
  case None
  then show ?thesis using assms by (simp add: getitem_def open_lmdb_def)
next
  case (Some a)
  then show ?thesis using assms
    by (simp add: getitem_def open_lmdb_def Let_def split: sum.splits)
qed

lemma getitem_opened_frame:
  assumes "txn h = Some t"
  shows "fst (snd (getitem L h i w)) = h"
    and "opens (snd (snd (getitem L h i w))) = opens w"
    and "fs (snd (snd (getitem L h i w))) = fs w"
  using assms by (simp_all add: getitem_opened split: sum.splits)

lemma getitem_opens:
  assumes "txn h = None" and "fs w (db_path h) = Some a"
  shows "txn (fst (snd (getitem L h i w))) = Some a"
    and "env (fst (snd (getitem L h i w))) = Some (opens w)"
    and "opens (snd (snd (getitem L h i w))) = opens w + 1"
proof -
  obtain r h1 w1 where o: "open_lmdb L h w = (r, h1, w1)" by (cases "open_lmdb L h w")
  from open_lmdb_connects [OF assms(2), of L] o
  have c: "txn h1 = Some a" "env h1 = Some (opens w)" "opens w1 = opens w + 1" by simp_all
  have g: "getitem L h i w = (case r of Inl e \<Rightarrow> (Inl e, h1, w1) | Inr u \<Rightarrow> getitem L h1 i w1)"
    using assms(1) o by (simp add: getitem_unopened split: sum.splits)
  show "txn (fst (snd (getitem L h i w))) = Some a"
    using g c getitem_opened_frame(1) [OF c(1), of L i w1] by (cases r) simp_all
  show "env (fst (snd (getitem L h i w))) = Some (opens w)"
    using g c getitem_opened_frame(1) [OF c(1), of L i w1] by (cases r) simp_all
  show "opens (snd (snd (getitem L h i w))) = opens w + 1"
    using g c getitem_opened_frame(2) [OF c(1), of L i w1] by (cases r) simp_all
qed

lemma getitems_opened_frame:
  assumes "txn h = Some t"
  shows "fst (snd (getitems L h idxs w)) = h \<and> opens (snd (snd (getitems L h idxs w))) = opens w"
  using assms
proof (induction idxs arbitrary: w)
  case Nil
  then show ?case by simp
next
  case (Cons i idxs)
  obtain r h1 w1 where g: "getitem L h i w = (r, h1, w1)" by (cases "getitem L h i w")
  from getitem_opened_frame(1,2) [OF Cons.prems, of L i w] g
  have f: "h1 = h" "opens w1 = opens w" by simp_all
  from Cons.IH [OF Cons.prems, of w1] f g show ?case
    by (simp add: split_beta)
qed


lemma py_index_cases:
  "0 \<le> i \<Longrightarrow> i < int (length xs) \<Longrightarrow> py_index xs i = Inr (xs ! nat i)"
  "- int (length xs) \<le> i \<Longrightarrow> i < 0 \<Longrightarrow> py_index xs i = Inr (xs ! nat (i + int (length xs)))"
  "int (length xs) \<le> i \<or> i < - int (length xs) \<Longrightarrow> py_index xs i = Inl IndexError"
  by (auto simp add: py_index_def Let_def)

lemma attached_getitem:
  assumes "attached L h w a ks"
  shows "\<exists>h1 w1. txn h1 = Some a \<and> keys h1 = PyList (map PyBytes ks)
     \<and> length_attr h1 = PyInt (int (length ks))
     \<and> transform h1 = transform h \<and> target_transform h1 = target_transform h
     \<and> rng w1 = rng w
     \<and> getitem L h i w = getitem L h1 i w1"
proof (cases "txn h")
  case None
  with assms have a: "fs w (db_path h) = Some a"
    "loads L (a ''__len__'') = Inr (PyInt (int (length ks)))"
    "loads L (a ''__keys__'') = Inr (PyList (map PyBytes ks))"
    by (simp_all add: attached_def)
  show ?thesis
    using None open_lmdb_ok [OF a]
    by (intro exI [of _ "h\<lparr>env := Some (opens w), txn := Some a,
          length_attr := PyInt (int (length ks)), keys := PyList (map PyBytes ks)\<rparr>"]
        exI [of _ "w\<lparr>opens := opens w + 1\<rparr>"]) (simp add: getitem_unopened)
next
  case (Some t)
  with assms show ?thesis
    by (intro exI [of _ h] exI [of _ w]) (simp add: attached_def)
qed

lemma apply_transforms_cong:
  "transform h1 = transform h \<Longrightarrow> target_transform h1 = target_transform h \<Longrightarrow>
   apply_transforms h1 g s = apply_transforms h g s"
  by (simp add: apply_transforms_def)

lemma attached_result:
  assumes "attached L h w a ks"
  shows "fst (getitem L h i w) =
     (case py_index ks i of Inl e \<Rightarrow> Inl e | Inr k \<Rightarrow> sample_of L h a (rng w) k)"
    and "len_dataset (fst (snd (getitem L h i w))) = PyInt (int (length ks))"
    and "attached L (fst (snd (getitem L h i w))) (snd (snd (getitem L h i w))) a ks"
    and "transform (fst (snd (getitem L h i w))) = transform h"
    and "target_transform (fst (snd (getitem L h i w))) = target_transform h"
proof -
  from attached_getitem [OF assms, of i] obtain h1 w1 where h1:
    "txn h1 = Some a" "keys h1 = PyList (map PyBytes ks)"
    "length_attr h1 = PyInt (int (length ks))"
    "transform h1 = transform h" "target_transform h1 = target_transform h"
    "rng w1 = rng w" "getitem L h i w = getitem L h1 i w1"
    by blast
  have pi: "py_index (map PyBytes ks) i = (case py_index ks i of Inl e \<Rightarrow> Inl e | Inr k \<Rightarrow> Inr (PyBytes k))"
    by (simp add: py_index_def Let_def)
  show "fst (getitem L h i w) =
     (case py_index ks i of Inl e \<Rightarrow> Inl e | Inr k \<Rightarrow> sample_of L h a (rng w) k)"
    using h1 pi apply_transforms_cong [OF h1(4,5)]
    by (simp add: getitem_opened sample_of_def split: sum.splits)
  have f: "fst (snd (getitem L h i w)) = h1"
    using getitem_opened_frame(1) [OF h1(1)] h1(7) by simp
  show "len_dataset (fst (snd (getitem L h i w))) = PyInt (int (length ks))"
    using f h1(3) by (simp add: len_dataset_def)
  show "attached L (fst (snd (getitem L h i w))) (snd (snd (getitem L h i w))) a ks"
    using f h1(1,2,3) assms by (simp add: attached_def)
  show "transform (fst (snd (getitem L h i w))) = transform h" using f h1(4) by simp
  show "target_transform (fst (snd (getitem L h i w))) = target_transform h" using f h1(5) by simp
qed

lemma demo_attached: "attached demo_libs demo_handle demo_world demo_archive [''0'', ''1'', ''2'']"
  by (simp add: attached_def demo_libs_def demo_loads_def loads_def demo_archive_def
      demo_handle_def demo_world_def)

lemma demo_sample_of:
  "sample_of demo_libs demo_handle demo_archive g ''0'' = Inr ([[1, 2]], PyInt 7)"
  "sample_of demo_libs demo_handle demo_archive g ''1'' = Inr ([[3, 4]], PyInt 8)"
  "sample_of demo_libs demo_handle demo_archive g ''2'' = Inr ([[5, 6]], PyInt 9)"
  by (simp_all add: sample_of_def read_record_def demo_libs_def demo_loads_def loads_def
      demo_archive_def demo_image_open_def py_index_def apply_transforms_def demo_handle_def)

lemmas demo_defs = demo_flip_handle_def random_hflip_def demo_world_def demo_archive_def demo_libs_def demo_loads_def
  demo_handle_def demo_image_open_def demo_small_archive_def demo_later_world_def
  demo_empty_world_def

lemmas getitem_defs = getitem_def open_lmdb_def loads_def py_index_def read_record_def
  apply_transforms_def Let_def

lemma stateless_apply:
  assumes "stateless h"
    and "transform h1 = transform h" and "target_transform h1 = target_transform h"
  shows "fst (apply_transforms h1 g' s) = fst (apply_transforms h g s)"
proof -
  have a: "\<And>f. transform h = Some f \<Longrightarrow> fst (f g' (fst s)) = fst (f g (fst s))"
    using assms(1) by (auto simp add: stateless_def)
  have b: "\<And>f u u'. target_transform h = Some f \<Longrightarrow> fst (f u' (snd s)) = fst (f u (snd s))"
    using assms(1) by (auto simp add: stateless_def)
  show ?thesis
    using a b assms(2,3)
    by (cases "transform h"; cases "target_transform h")
       (simp_all add: apply_transforms_def split_beta)
qed

lemma init_reads:
  assumes "init L p tr ttr w0 = (Inr h0, w1)" and "fs w0 p = Some a"
  shows "reads L h0 w1 a" and "transform h0 = tr" and "target_transform h0 = ttr"
  using assms
  by (auto simp add: init_def reads_def Let_def split: sum.splits)

lemma reads_getitem:
  assumes "reads L h w a"
  shows "\<exists>h1 w1. txn h1 = Some a \<and> keys h1 = keys h
     \<and> transform h1 = transform h \<and> target_transform h1 = target_transform h
     \<and> rng w1 = rng w
     \<and> getitem L h i w = getitem L h1 i w1"
proof (cases "txn h")
  case None
  from assms obtain n where n: "loads L (a ''__len__'') = Inr n"
    by (cases "loads L (a ''__len__'')") (simp_all add: reads_def)
  from assms None have a: "fs w (db_path h) = Some a" "loads L (a ''__keys__'') = Inr (keys h)"
    by (simp_all add: reads_def)
  show ?thesis
    using None open_lmdb_ok [OF a(1) n a(2)]
    by (intro exI [of _ "h\<lparr>env := Some (opens w), txn := Some a, length_attr := n, keys := keys h\<rparr>"]
        exI [of _ "w\<lparr>opens := opens w + 1\<rparr>"]) (simp add: getitem_unopened)
next
  case (Some t)
  with assms show ?thesis
    by (intro exI [of _ h] exI [of _ w]) (simp add: reads_def)
qed

lemma reads_result:
  assumes "reads L h w a"
  shows "fst (getitem L h i w) =
     (case subscript (keys h) i of
        Inl e \<Rightarrow> Inl e
      | Inr key \<Rightarrow>
          (case read_record L a key of
             Inl e \<Rightarrow> Inl e
           | Inr s \<Rightarrow> Inr (fst (apply_transforms h (rng w) s))))"
    and "reads L (fst (snd (getitem L h i w))) (snd (snd (getitem L h i w))) a"
    and "transform (fst (snd (getitem L h i w))) = transform h"
    and "target_transform (fst (snd (getitem L h i w))) = target_transform h"
proof -
  from reads_getitem [OF assms, of i] obtain h1 w1 where h1:
    "txn h1 = Some a" "keys h1 = keys h"
    "transform h1 = transform h" "target_transform h1 = target_transform h"
    "rng w1 = rng w" "getitem L h i w = getitem L h1 i w1"
    by blast
  show "fst (getitem L h i w) =
     (case subscript (keys h) i of
        Inl e \<Rightarrow> Inl e
      | Inr key \<Rightarrow>
          (case read_record L a key of
             Inl e \<Rightarrow> Inl e
           | Inr s \<Rightarrow> Inr (fst (apply_transforms h (rng w) s))))"
    using h1 apply_transforms_cong [OF h1(3,4)]
    by (simp add: getitem_opened split: sum.splits)
  have f: "fst (snd (getitem L h i w)) = h1"
    using getitem_opened_frame(1) [OF h1(1)] h1(6) by simp
  show "reads L (fst (snd (getitem L h i w))) (snd (snd (getitem L h i w))) a"
    using f h1(1,2) assms by (simp add: reads_def)
  show "transform (fst (snd (getitem L h i w))) = transform h" using f h1(3) by simp
  show "target_transform (fst (snd (getitem L h i w))) = target_transform h" using f h1(4) by simp
qed

lemma result_cong:
  assumes "\<And>s. fst (apply_transforms h2 g2 s) = fst (apply_transforms h g s)"
  shows "(case subscript ks i of
            Inl e \<Rightarrow> Inl e
          | Inr key \<Rightarrow>
              (case read_record L a key of
                 Inl e \<Rightarrow> Inl e
               | Inr s \<Rightarrow> Inr (fst (apply_transforms h2 g2 s))))
       = (case subscript ks i of
            Inl e \<Rightarrow> Inl e
          | Inr key \<Rightarrow>
              (case read_record L a key of
                 Inl e \<Rightarrow> Inl e
               | Inr s \<Rightarrow> Inr (fst (apply_transforms h g s))))"
  by (simp add: assms split: sum.splits)

lemma opened_result:
  assumes "txn h = Some t"
  shows "fst (getitem L h i w) =
     (case subscript (keys h) i of
        Inl e \<Rightarrow> Inl e
      | Inr key \<Rightarrow>
          (case read_record L t key of
             Inl e \<Rightarrow> Inl e
           | Inr s \<Rightarrow> Inr (fst (apply_transforms h (rng w) s))))"
  by (simp add: getitem_opened [OF assms] split: sum.splits)

lemma reads_same:
  assumes "stateless h" and "reads L h w a" and "reads L h2 w2 a"
    and "transform h2 = transform h" and "target_transform h2 = target_transform h"
  shows "fst (getitem L h2 i w2) = fst (getitem L h i w)"
proof -
  have k: "keys h2 = keys h" using assms(2,3) by (simp add: reads_def)
  have s: "\<And>s. fst (apply_transforms h2 (rng w2) s) = fst (apply_transforms h (rng w) s)"
    using stateless_apply [OF assms(1,4,5)] .
  have "fst (getitem L h2 i w2) =
     (case subscript (keys h) i of
        Inl e \<Rightarrow> Inl e
      | Inr key \<Rightarrow>
          (case read_record L a key of
             Inl e \<Rightarrow> Inl e
           | Inr s \<Rightarrow> Inr (fst (apply_transforms h2 (rng w2) s))))"
    using reads_result(1) [OF assms(3), of i] by (simp only: k)
  also have "\<dots> =
     (case subscript (keys h) i of
        Inl e \<Rightarrow> Inl e
      | Inr key \<Rightarrow>
          (case read_record L a key of
             Inl e \<Rightarrow> Inl e
           | Inr s \<Rightarrow> Inr (fst (apply_transforms h (rng w) s))))"
    using s by (rule result_cong)
  also have "\<dots> = fst (getitem L h i w)"
    using reads_result(1) [OF assms(2), of i] by (rule sym)
  finally show ?thesis .
qed

lemma repeat_opened:
  assumes "stateless h" and "txn h = Some t"
  shows "fst (getitem L (fst (snd (getitem L h i w))) i (snd (snd (getitem L h i w))))
       = fst (getitem L h i w)"
proof -
  let ?w1 = "snd (snd (getitem L h i w))"
  have f: "fst (snd (getitem L h i w)) = h" using assms(2) by (rule getitem_opened_frame(1))
  have s: "\<And>s. fst (apply_transforms h (rng ?w1) s) = fst (apply_transforms h (rng w) s)"
    using stateless_apply [OF assms(1) refl refl] .
  have "fst (getitem L h i ?w1) =
     (case subscript (keys h) i of
        Inl e \<Rightarrow> Inl e
      | Inr key \<Rightarrow>
          (case read_record L t key of
             Inl e \<Rightarrow> Inl e
           | Inr s \<Rightarrow> Inr (fst (apply_transforms h (rng ?w1) s))))"
    using assms(2) by (rule opened_result)
  also have "\<dots> =
     (case subscript (keys h) i of
        Inl e \<Rightarrow> Inl e
      | Inr key \<Rightarrow>
          (case read_record L t key of
             Inl e \<Rightarrow> Inl e
           | Inr s \<Rightarrow> Inr (fst (apply_transforms h (rng w) s))))"
    using s by (rule result_cong)
  also have "\<dots> = fst (getitem L h i w)"
    using opened_result [OF assms(2), of L i w] by (rule sym)
  finally have "fst (getitem L h i ?w1) = fst (getitem L h i w)" .
  then show ?thesis by (simp only: f)
qed

lemma getitem_open_fails:
  assumes "txn h = None" and "fs w (db_path h) = None"
  shows "getitem L h i w = (Inl LmdbError, h, w)"
  using assms by (simp add: getitem_def open_lmdb_def)

lemma getitem_out_of_range:
  assumes "txn h = None" and "fs w (db_path h) = Some a"
    and "loads L (a ''__len__'') = Inr n" and "loads L (a ''__keys__'') = Inr (PyList ks)"
    and "int (length ks) \<le> i \<or> i < - int (length ks)"
  shows "fst (getitem L h i w) = Inl IndexError"
  using assms(1) open_lmdb_ok [OF assms(2,3,4)] py_index_cases(3) [OF assms(5)]
  by (simp add: getitem_def)

lemma repeat_unopened:
  assumes "stateless h" and "txn h = None" and "fs w (db_path h) = Some a"
    and "loads L (a ''__len__'') = Inr n" and "loads L (a ''__keys__'') = Inr ks"
  shows "fst (getitem L (fst (snd (getitem L h i w))) i (snd (snd (getitem L h i w))))
       = fst (getitem L h i w)"
proof -
  let ?h1 = "h\<lparr>env := Some (opens w), txn := Some a, length_attr := n, keys := ks\<rparr>"
  let ?w1 = "w\<lparr>opens := opens w + 1\<rparr>"
  have g: "getitem L h i w = getitem L ?h1 i ?w1"
    using assms(2) open_lmdb_ok [OF assms(3,4,5)] by (simp add: getitem_unopened)
  have t: "txn ?h1 = Some a" by simp
  have s: "stateless ?h1" using assms(1) by (simp add: stateless_def)
  from repeat_opened [OF s t, of L i ?w1] show ?thesis by (simp only: g)
qed

lemma repeat_unopenable:
  assumes "txn h = None" and "fs w (db_path h) = None"
  shows "fst (getitem L (fst (snd (getitem L h i w))) i (snd (snd (getitem L h i w))))
       = fst (getitem L h i w)"
  by (simp add: getitem_open_fails [OF assms])

text \<open>
  Claim C1, as the code has it. On an archive whose count is the number of its keys,
  \<^verbatim>\<open>get(index)\<close> returns the decoded sample of \<open>Key[index]\<close> when
  \<open>0 \<le> index < length()\<close> (or the error of decoding that record), raises IndexError
  when \<open>index \<ge> length()\<close> or \<open>index < -length()\<close>, and for
  \<open>-length() \<le> index < 0\<close> returns the sample of \<open>Key[index + length()]\<close>: the key
  sequence is a Python list, and no range check precedes \<^verbatim>\<open>self.keys[index]\<close>.
\<close>

theorem getitem_index_range:
  assumes "attached L h w a ks"
  shows "len_dataset (fst (snd (getitem L h i w))) = PyInt (int (length ks))
    \<and> (0 \<le> i \<and> i < int (length ks) \<longrightarrow>
         fst (getitem L h i w) = sample_of L h a (rng w) (ks ! nat i))
    \<and> (- int (length ks) \<le> i \<and> i < 0 \<longrightarrow>
         fst (getitem L h i w) = sample_of L h a (rng w) (ks ! nat (i + int (length ks))))
    \<and> (int (length ks) \<le> i \<or> i < - int (length ks) \<longrightarrow>
         fst (getitem L h i w) = Inl IndexError)"
  using attached_result(1,2) [OF assms, of i]
  by (auto simp add: py_index_cases)

theorem getitem_index_range_witness:
  "fst (getitem demo_libs demo_handle 1 demo_world) = Inr ([[3, 4]], PyInt 8)
   \<and> fst (getitem demo_libs demo_handle (- 3) demo_world) = Inr ([[1, 2]], PyInt 7)
   \<and> fst (getitem demo_libs demo_handle 3 demo_world) = Inl IndexError
   \<and> fst (getitem demo_libs demo_handle (- 4) demo_world) = Inl IndexError
   \<and> len_dataset (fst (snd (getitem demo_libs demo_handle 1 demo_world))) = PyInt 3"
  using getitem_index_range [OF demo_attached, of 1]
    getitem_index_range [OF demo_attached, of "- 3"]
    getitem_index_range [OF demo_attached, of 3]
    getitem_index_range [OF demo_attached, of "- 4"]
  by (simp add: demo_sample_of)

text \<open>
  The claim as stated fails at a negative index: on the three-sample archive,
  \<^verbatim>\<open>get(-1)\<close> returns the last sample instead of raising IndexError.
\<close>

theorem getitem_negative_index_counterexample:
  "fst (getitem demo_libs demo_handle (- 1) demo_world) = Inr ([[5, 6]], PyInt 9)"
  by (simp add: getitem_def open_lmdb_def demo_world_def demo_archive_def demo_libs_def demo_loads_def
     loads_def demo_handle_def py_index_def read_record_def demo_image_open_def apply_transforms_def Let_def)

text \<open>
  Claim C2. On a handle without a connection whose archive can be opened, the first
  \<^verbatim>\<open>get()\<close> opens the connection (one more connection in the world, identified by
  the count before) and loads the key sequence; every later sequence of \<^verbatim>\<open>get()\<close>
  calls on that handle leaves the handle, with its connection and transaction, as it
  is and opens no further connection.
\<close>

theorem connection_established_once:
  assumes "txn h = None" and "fs w (db_path h) = Some a"
  shows "txn (fst (snd (getitem L h i w))) = Some a
    \<and> env (fst (snd (getitem L h i w))) = Some (opens w)
    \<and> opens (snd (snd (getitem L h i w))) = opens w + 1
    \<and> (\<forall>n ks. loads L (a ''__len__'') = Inr n \<and> loads L (a ''__keys__'') = Inr ks
          \<longrightarrow> keys (fst (snd (getitem L h i w))) = ks)
    \<and> (\<forall>idxs. fst (snd (getitems L (fst (snd (getitem L h i w))) idxs (snd (snd (getitem L h i w)))))
                 = fst (snd (getitem L h i w))
          \<and> opens (snd (snd (getitems L (fst (snd (getitem L h i w))) idxs (snd (snd (getitem L h i w))))))
                 = opens w + 1)"
proof -
  let ?h1 = "fst (snd (getitem L h i w))"
  let ?w1 = "snd (snd (getitem L h i w))"
  note o = getitem_opens [OF assms, of L i]
  have k: "\<forall>n ks. loads L (a ''__len__'') = Inr n \<and> loads L (a ''__keys__'') = Inr ks
          \<longrightarrow> keys ?h1 = ks"
  proof (intro allI impI)
    fix n ks assume l: "loads L (a ''__len__'') = Inr n \<and> loads L (a ''__keys__'') = Inr ks"
    let ?h = "h\<lparr>env := Some (opens w), txn := Some a, length_attr := n, keys := ks\<rparr>"
    have t: "txn ?h = Some a" by simp
    have "getitem L h i w = getitem L ?h i (w\<lparr>opens := opens w + 1\<rparr>)"
      using assms(1) open_lmdb_ok [OF assms(2), of L n ks] l by (simp add: getitem_unopened)
    then have "?h1 = ?h" using getitem_opened_frame(1) [OF t] by simp
    then show "keys ?h1 = ks" by simp
  qed
  have f: "\<forall>idxs. fst (snd (getitems L ?h1 idxs ?w1)) = ?h1
          \<and> opens (snd (snd (getitems L ?h1 idxs ?w1))) = opens w + 1"
    using getitems_opened_frame [OF o(1)] o(3) by simp
  show ?thesis using o k f by blast
qed

theorem connection_established_once_witness:
  "txn (fst (snd (getitem demo_libs demo_handle 0 demo_world))) = Some demo_archive
   \<and> env (fst (snd (getitem demo_libs demo_handle 0 demo_world))) = Some 0
   \<and> opens (snd (snd (getitem demo_libs demo_handle 0 demo_world))) = 1
   \<and> keys (fst (snd (getitem demo_libs demo_handle 0 demo_world)))
       = PyList [PyBytes ''0'', PyBytes ''1'', PyBytes ''2'']
   \<and> opens (snd (snd (getitems demo_libs (fst (snd (getitem demo_libs demo_handle 0 demo_world)))
         [1, 2, 0] (snd (snd (getitem demo_libs demo_handle 0 demo_world)))))) = 1"
proof -
  have t: "txn demo_handle = None" by (simp add: demo_handle_def)
  have f: "fs demo_world (db_path demo_handle) = Some demo_archive"
    by (simp add: demo_handle_def demo_world_def)
  have l: "loads demo_libs (demo_archive ''__len__'') = Inr (PyInt 3)
     \<and> loads demo_libs (demo_archive ''__keys__'') = Inr (PyList [PyBytes ''0'', PyBytes ''1'', PyBytes ''2''])"
    by (simp add: loads_def demo_defs)
  have o: "opens demo_world = 0" by (simp add: demo_world_def)
  note c = connection_established_once [OF t f, of demo_libs 0]
  from c l have k: "keys (fst (snd (getitem demo_libs demo_handle 0 demo_world)))
       = PyList [PyBytes ''0'', PyBytes ''1'', PyBytes ''2'']" by blast
  from c have g: "opens (snd (snd (getitems demo_libs (fst (snd (getitem demo_libs demo_handle 0 demo_world)))
         [1, 2, 0] (snd (snd (getitem demo_libs demo_handle 0 demo_world)))))) = opens demo_world + 1"
    by blast
  from c k g o show ?thesis by (simp del: getitems.simps)
qed

text \<open>
  Claim C3, as the code has it. A handle constructed on an archive reads that archive,
  and keeps reading it, with the same transforms, after every \<^verbatim>\<open>get\<close>. When the
  transforms of a handle do not depend on the random generator, \<^verbatim>\<open>get(index)\<close> returns
  the same result on every handle that reads the same archive with the same
  transforms, whatever the state of the handles and of the generator, and a second
  \<^verbatim>\<open>get(index)\<close> on the same handle returns what the first returned, also when the
  handle's archive cannot be opened, and on an opened handle whatever it holds. This
  holds for every index.
\<close>

theorem getitem_repeatable:
  "(init L p tr ttr w0 = (Inr h0, w1) \<and> fs w0 p = Some a \<longrightarrow> reads L h0 w1 a)
   \<and> (reads L h w a \<longrightarrow>
        reads L (fst (snd (getitem L h i w))) (snd (snd (getitem L h i w))) a
        \<and> transform (fst (snd (getitem L h i w))) = transform h
        \<and> target_transform (fst (snd (getitem L h i w))) = target_transform h)
   \<and> (stateless h \<and> reads L h w a \<and> reads L h2 w2 a
        \<and> transform h2 = transform h \<and> target_transform h2 = target_transform h \<longrightarrow>
        fst (getitem L h2 i w2) = fst (getitem L h i w))
   \<and> (stateless h
        \<and> (txn h \<noteq> None \<or> fs w (db_path h) = None
            \<or> (fs w (db_path h) = Some a \<and> \<not> isl (loads L (a ''__len__''))
                \<and> \<not> isl (loads L (a ''__keys__'')))) \<longrightarrow>
        fst (getitem L (fst (snd (getitem L h i w))) i (snd (snd (getitem L h i w))))
          = fst (getitem L h i w))"
proof (intro conjI impI)
  assume "init L p tr ttr w0 = (Inr h0, w1) \<and> fs w0 p = Some a"
  then show "reads L h0 w1 a" using init_reads(1) by blast
next
  assume r: "reads L h w a"
  show "reads L (fst (snd (getitem L h i w))) (snd (snd (getitem L h i w))) a"
    using r by (rule reads_result(2))
  show "transform (fst (snd (getitem L h i w))) = transform h"
    using r by (rule reads_result(3))
  show "target_transform (fst (snd (getitem L h i w))) = target_transform h"
    using r by (rule reads_result(4))
next
  assume "stateless h \<and> reads L h w a \<and> reads L h2 w2 a
        \<and> transform h2 = transform h \<and> target_transform h2 = target_transform h"
  then show "fst (getitem L h2 i w2) = fst (getitem L h i w)"
    using reads_same by blast
next
  assume a: "stateless h
        \<and> (txn h \<noteq> None \<or> fs w (db_path h) = None
            \<or> (fs w (db_path h) = Some a \<and> \<not> isl (loads L (a ''__len__''))
                \<and> \<not> isl (loads L (a ''__keys__''))))"
  then have s: "stateless h" by simp
  show "fst (getitem L (fst (snd (getitem L h i w))) i (snd (snd (getitem L h i w))))
          = fst (getitem L h i w)"
  proof (cases "txn h")
    case (Some t)
    with s show ?thesis by (rule repeat_opened)
  next
    case None
    show ?thesis
    proof (cases "fs w (db_path h)")
      case n: None
      with None show ?thesis by (rule repeat_unopenable)
    next
      case (Some b)
      with a None have b: "fs w (db_path h) = Some a"
        "\<not> isl (loads L (a ''__len__''))" "\<not> isl (loads L (a ''__keys__''))"
        by simp_all
      from b(2) obtain n where n: "loads L (a ''__len__'') = Inr n"
        by (cases "loads L (a ''__len__'')") simp_all
      from b(3) obtain ks where ks: "loads L (a ''__keys__'') = Inr ks"
        by (cases "loads L (a ''__keys__'')") simp_all
      from s None b(1) n ks show ?thesis by (rule repeat_unopened)
    qed
  qed
qed

theorem getitem_repeatable_witness:
  "init demo_libs ''train.lmdb'' None None demo_world = (Inr demo_handle, demo_world\<lparr>opens := 1\<rparr>)
   \<and> reads demo_libs demo_handle (demo_world\<lparr>opens := 1\<rparr>) demo_archive
   \<and> fst (getitem demo_libs demo_handle 1 (demo_world\<lparr>opens := 1\<rparr>)) = Inr ([[3, 4]], PyInt 8)
   \<and> fst (getitem demo_libs (demo_handle\<lparr>env := Some 7, txn := Some demo_archive\<rparr>) 1
            (demo_world\<lparr>opens := 8, rng := 5\<rparr>)) = Inr ([[3, 4]], PyInt 8)
   \<and> fst (getitem demo_libs
            (fst (snd (getitem demo_libs demo_handle 1 (demo_world\<lparr>opens := 1\<rparr>)))) 1
            (snd (snd (getitem demo_libs demo_handle 1 (demo_world\<lparr>opens := 1\<rparr>)))))
       = Inr ([[3, 4]], PyInt 8)"
proof -
  let ?w = "demo_world\<lparr>opens := 1\<rparr>"
  let ?h2 = "demo_handle\<lparr>env := Some 7, txn := Some demo_archive\<rparr>"
  let ?w2 = "demo_world\<lparr>opens := 8, rng := 5\<rparr>"
  note t = getitem_repeatable [of demo_libs "''train.lmdb''" None None demo_world demo_handle
      ?w demo_archive demo_handle ?w 1 ?h2 ?w2]
  have i: "init demo_libs ''train.lmdb'' None None demo_world = (Inr demo_handle, ?w)"
    by (simp add: init_def loads_def demo_defs)
  have f: "fs demo_world ''train.lmdb'' = Some demo_archive" by (simp add: demo_world_def)
  have s: "stateless demo_handle" by (simp add: stateless_def demo_handle_def)
  have r2: "reads demo_libs ?h2 ?w2 demo_archive"
    by (simp add: reads_def loads_def demo_defs)
  have e: "transform ?h2 = transform demo_handle" "target_transform ?h2 = target_transform demo_handle"
    by simp_all
  have g: "fst (getitem demo_libs demo_handle 1 ?w) = Inr ([[3, 4]], PyInt 8)"
    by (simp add: getitem_defs demo_defs)
  from t i f have r: "reads demo_libs demo_handle ?w demo_archive" by blast
  from t s r r2 e have g2: "fst (getitem demo_libs ?h2 1 ?w2) = fst (getitem demo_libs demo_handle 1 ?w)"
    by blast
  have l: "\<not> isl (loads demo_libs (demo_archive ''__len__''))"
    "\<not> isl (loads demo_libs (demo_archive ''__keys__''))"
    by (simp_all add: loads_def demo_defs)
  have f2: "fs ?w (db_path demo_handle) = Some demo_archive"
    by (simp add: demo_handle_def demo_world_def)
  from t s f2 l have g3: "fst (getitem demo_libs (fst (snd (getitem demo_libs demo_handle 1 ?w))) 1
            (snd (snd (getitem demo_libs demo_handle 1 ?w)))) = fst (getitem demo_libs demo_handle 1 ?w)"
    by blast
  show ?thesis using i r g g2 g3 by simp
qed

text \<open>
  With a randomized transform, as \<^verbatim>\<open>main\<close> configures, the claim fails: the handle
  is constructed on the example archive with the random flip, and two calls
  \<^verbatim>\<open>get(0)\<close> return the mirrored image and then the image as stored.
\<close>

theorem getitem_random_transform_counterexample:
  "\<exists>h w. init demo_libs ''train.lmdb'' (Some random_hflip) None demo_world = (Inr h, w)
     \<and> fst (getitem demo_libs h 0 w) = Inr ([[2, 1]], PyInt 7)
     \<and> fst (getitem demo_libs (fst (snd (getitem demo_libs h 0 w))) 0
              (snd (snd (getitem demo_libs h 0 w)))) = Inr ([[1, 2]], PyInt 7)"
proof -
  let ?w = "demo_world\<lparr>opens := 1\<rparr>"
  have i: "init demo_libs ''train.lmdb'' (Some random_hflip) None demo_world = (Inr demo_flip_handle, ?w)"
    by (simp add: init_def loads_def demo_defs)
  have g: "getitem demo_libs demo_flip_handle 0 ?w =
     (Inr ([[2, 1]], PyInt 7),
      demo_flip_handle\<lparr>env := Some 1, txn := Some demo_archive\<rparr>,
      ?w\<lparr>opens := 2, rng := 1\<rparr>)"
    by (simp add: getitem_defs demo_defs)
  have g2: "fst (getitem demo_libs (demo_flip_handle\<lparr>env := Some 1, txn := Some demo_archive\<rparr>) 0
      (?w\<lparr>opens := 2, rng := 1\<rparr>)) = Inr ([[1, 2]], PyInt 7)"
    by (simp add: getitem_defs demo_defs)
  show ?thesis using i g g2 by simp
qed

text \<open>
  Claim C5, as the code has it. Constructing a handle fails with the storage error
  when the archive cannot be opened; when it succeeds, the archive was opened and the
  handle holds the count and the key sequence unpickled from \<^verbatim>\<open>__len__\<close> and
  \<^verbatim>\<open>__keys__\<close> at construction, and no connection or transaction is kept.
\<close>

theorem init_reads_index:
  "(fs w p = None \<longrightarrow> init L p tr ttr w = (Inl LmdbError, w))
   \<and> (\<forall>h w'. init L p tr ttr w = (Inr h, w') \<longrightarrow>
        (\<exists>a. fs w p = Some a
           \<and> loads L (a ''__len__'') = Inr (length_attr h)
           \<and> loads L (a ''__keys__'') = Inr (keys h)
           \<and> env h = None \<and> txn h = None
           \<and> opens w' = opens w + 1))"
  by (auto simp add: init_def Let_def split: option.splits sum.splits)

theorem init_reads_index_witness:
  "init demo_libs ''missing.lmdb'' None None demo_world = (Inl LmdbError, demo_world)
   \<and> (\<exists>a. fs demo_world ''train.lmdb'' = Some a
           \<and> loads demo_libs (a ''__len__'') = Inr (PyInt 3)
           \<and> loads demo_libs (a ''__keys__'') = Inr (PyList [PyBytes ''0'', PyBytes ''1'', PyBytes ''2'']))"
proof -
  have n: "fs demo_world ''missing.lmdb'' = None" by (simp add: demo_defs)
  have i: "init demo_libs ''train.lmdb'' None None demo_world = (Inr demo_handle, demo_world\<lparr>opens := 1\<rparr>)"
    by (simp add: init_def loads_def demo_defs)
  note t = init_reads_index [of demo_world "''missing.lmdb''" demo_libs None None]
  note u = init_reads_index [of demo_world "''train.lmdb''" demo_libs None None]
  from t n have a: "init demo_libs ''missing.lmdb'' None None demo_world = (Inl LmdbError, demo_world)"
    by blast
  from u i have "\<exists>a. fs demo_world ''train.lmdb'' = Some a
           \<and> loads demo_libs (a ''__len__'') = Inr (length_attr demo_handle)
           \<and> loads demo_libs (a ''__keys__'') = Inr (keys demo_handle)
           \<and> env demo_handle = None \<and> txn demo_handle = None
           \<and> opens (demo_world\<lparr>opens := 1\<rparr>) = opens demo_world + 1"
    by blast
  then show ?thesis using a by (auto simp add: demo_handle_def)
qed

text \<open>
  The claim as stated fails: construction on the example archive returns a handle that
  already holds the count 3 and the three keys, and construction on a store that can
  be opened but holds no index raises TypeError.
\<close>

theorem init_loads_index_counterexample:
  "fst (init demo_libs ''train.lmdb'' None None demo_world) = Inr demo_handle
   \<and> length_attr demo_handle = PyInt 3
   \<and> keys demo_handle = PyList [PyBytes ''0'', PyBytes ''1'', PyBytes ''2'']
   \<and> fs demo_empty_world ''train.lmdb'' = Some Map.empty
   \<and> fst (init demo_libs ''train.lmdb'' None None demo_empty_world) = Inl TypeError"
  by (simp add: init_def loads_def demo_defs)

text \<open>
  Claim C9, as the code has it. On a handle without a connection, \<^verbatim>\<open>open_lmdb\<close> runs
  before \<^verbatim>\<open>self.keys[index]\<close> is evaluated. When the archive at the handle's path can
  be opened, \<^verbatim>\<open>get(index)\<close> leaves the handle with the connection and the transaction
  assigned whatever it returns, and with an index out of range it raises IndexError.
  When \<^verbatim>\<open>lmdb.open\<close> raises, \<^verbatim>\<open>get(index)\<close> raises that error and leaves the handle
  and the connection count as they were.
\<close>

theorem failed_get_leaves_connection_open:
  assumes "txn h = None"
  shows "(fs w (db_path h) = Some a \<longrightarrow>
            txn (fst (snd (getitem L h i w))) = Some a
            \<and> env (fst (snd (getitem L h i w))) = Some (opens w)
            \<and> opens (snd (snd (getitem L h i w))) = opens w + 1)
    \<and> (fs w (db_path h) = Some a \<and> loads L (a ''__len__'') = Inr n
         \<and> loads L (a ''__keys__'') = Inr (PyList ks)
         \<and> (int (length ks) \<le> i \<or> i < - int (length ks)) \<longrightarrow>
            fst (getitem L h i w) = Inl IndexError)
    \<and> (fs w (db_path h) = None \<longrightarrow> getitem L h i w = (Inl LmdbError, h, w))"
proof (intro conjI impI)
  assume f: "fs w (db_path h) = Some a"
  show "txn (fst (snd (getitem L h i w))) = Some a"
    using assms f by (rule getitem_opens(1))
  show "env (fst (snd (getitem L h i w))) = Some (opens w)"
    using assms f by (rule getitem_opens(2))
  show "opens (snd (snd (getitem L h i w))) = opens w + 1"
    using assms f by (rule getitem_opens(3))
next
  assume "fs w (db_path h) = Some a \<and> loads L (a ''__len__'') = Inr n
         \<and> loads L (a ''__keys__'') = Inr (PyList ks)
         \<and> (int (length ks) \<le> i \<or> i < - int (length ks))"
  then show "fst (getitem L h i w) = Inl IndexError"
    using getitem_out_of_range [OF assms] by blast
next
  assume "fs w (db_path h) = None"
  with assms show "getitem L h i w = (Inl LmdbError, h, w)" by (rule getitem_open_fails)
qed

theorem failed_get_leaves_connection_open_witness:
  "fst (getitem demo_libs demo_handle 3 demo_world) = Inl IndexError
   \<and> txn (fst (snd (getitem demo_libs demo_handle 3 demo_world))) = Some demo_archive
   \<and> env (fst (snd (getitem demo_libs demo_handle 3 demo_world))) = Some 0
   \<and> opens (snd (snd (getitem demo_libs demo_handle 3 demo_world))) = 1
   \<and> getitem demo_libs demo_handle 3 demo_removed_world
       = (Inl LmdbError, demo_handle, demo_removed_world)"
proof -
  have t: "txn demo_handle = None" by (simp add: demo_handle_def)
  have f: "fs demo_world (db_path demo_handle) = Some demo_archive"
    by (simp add: demo_handle_def demo_world_def)
  have l: "loads demo_libs (demo_archive ''__len__'') = Inr (PyInt 3)"
    "loads demo_libs (demo_archive ''__keys__'') = Inr (PyList [PyBytes ''0'', PyBytes ''1'', PyBytes ''2''])"
    by (simp_all add: loads_def demo_defs)
  have i: "int (length [PyBytes ''0'', PyBytes ''1'', PyBytes ''2'']) \<le> 3" by simp
  have o: "opens demo_world = 0" by (simp add: demo_world_def)
  have n: "fs demo_removed_world (db_path demo_handle) = None"
    by (simp add: demo_removed_world_def)
  note a = failed_get_leaves_connection_open [OF t, of demo_world demo_archive demo_libs 3
      "PyInt 3" "[PyBytes ''0'', PyBytes ''1'', PyBytes ''2'']"]
  note b = failed_get_leaves_connection_open [OF t, of demo_removed_world demo_archive demo_libs 3
      "PyInt 3" "[PyBytes ''0'', PyBytes ''1'', PyBytes ''2'']"]
  from a f l i have r: "fst (getitem demo_libs demo_handle 3 demo_world) = Inl IndexError"
    "txn (fst (snd (getitem demo_libs demo_handle 3 demo_world))) = Some demo_archive"
    "env (fst (snd (getitem demo_libs demo_handle 3 demo_world))) = Some (opens demo_world)"
    "opens (snd (snd (getitem demo_libs demo_handle 3 demo_world))) = opens demo_world + 1"
    by blast+
  from b n have r2: "getitem demo_libs demo_handle 3 demo_removed_world
       = (Inl LmdbError, demo_handle, demo_removed_world)" by blast
  show ?thesis using r r2 o by simp
qed

text \<open>
  The claim as stated fails: a \<^verbatim>\<open>get\<close> on an unopened handle whose archive has been
  removed fails, and the handle is left without connection and transaction.
\<close>

theorem failed_open_leaves_handle_unopened_counterexample:
  "txn demo_handle = None
   \<and> fst (getitem demo_libs demo_handle 0 demo_removed_world) = Inl LmdbError
   \<and> txn (fst (snd (getitem demo_libs demo_handle 0 demo_removed_world))) = None
   \<and> env (fst (snd (getitem demo_libs demo_handle 0 demo_removed_world))) = None
   \<and> opens (snd (snd (getitem demo_libs demo_handle 0 demo_removed_world)))
       = opens demo_removed_world"
  by (simp add: getitem_def open_lmdb_def demo_handle_def demo_removed_world_def)

text \<open>
  Claim C10. A constructed handle keeps no connection and no transaction. The first
  \<^verbatim>\<open>get()\<close> on it, in any later world where the path holds an archive with a
  loadable index, opens a connection of its own, other than the constructor's, and
  overwrites the handle's count and key sequence with the values read then, whatever
  the constructor had stored; the result of the call is computed from the re-read
  values alone.
\<close>

theorem construction_connection_discarded:
  assumes "init L p tr ttr w = (Inr h, w1)"
    and "fs w2 p = Some a2"
    and "loads L (a2 ''__len__'') = Inr n2"
    and "loads L (a2 ''__keys__'') = Inr ks2"
    and "opens w1 \<le> opens w2"
  shows "env h = None \<and> txn h = None \<and> opens w1 = opens w + 1
    \<and> env (fst (snd (getitem L h i w2))) = Some (opens w2)
    \<and> opens w2 \<noteq> opens w
    \<and> txn (fst (snd (getitem L h i w2))) = Some a2
    \<and> opens (snd (snd (getitem L h i w2))) = opens w2 + 1
    \<and> length_attr (fst (snd (getitem L h i w2))) = n2
    \<and> keys (fst (snd (getitem L h i w2))) = ks2
    \<and> fst (getitem L h i w2)
        = fst (getitem L (h\<lparr>env := Some (opens w2), txn := Some a2, length_attr := n2, keys := ks2\<rparr>)
                 i (w2\<lparr>opens := opens w2 + 1\<rparr>))"
proof -
  from assms(1) have h: "env h = None" "txn h = None" "opens w1 = opens w + 1" "db_path h = p"
    by (auto simp add: init_def Let_def split: option.splits sum.splits)
  let ?h = "h\<lparr>env := Some (opens w2), txn := Some a2, length_attr := n2, keys := ks2\<rparr>"
  have f: "fs w2 (db_path h) = Some a2" using assms(2) h(4) by simp
  have t: "txn ?h = Some a2" by simp
  have g: "getitem L h i w2 = getitem L ?h i (w2\<lparr>opens := opens w2 + 1\<rparr>)"
    using h(2) open_lmdb_ok [OF f assms(3,4)] by (simp add: getitem_unopened)
  have e: "fst (snd (getitem L h i w2)) = ?h"
    using g getitem_opened_frame(1) [OF t, of L i] by simp
  have o: "opens (snd (snd (getitem L h i w2))) = opens w2 + 1"
    using g getitem_opened_frame(2) [OF t, of L i "w2\<lparr>opens := opens w2 + 1\<rparr>"] by simp
  have d: "opens w2 \<noteq> opens w" using assms(5) h(3) by simp
  show ?thesis using h(1,2,3) e o d g by simp
qed

theorem construction_connection_discarded_witness:
  "init demo_libs ''train.lmdb'' None None demo_world = (Inr demo_handle, demo_world\<lparr>opens := 1\<rparr>)
   \<and> length_attr demo_handle = PyInt 3
   \<and> env demo_handle = None \<and> txn demo_handle = None
   \<and> env (fst (snd (getitem demo_libs demo_handle 0 demo_later_world))) = Some 1
   \<and> txn (fst (snd (getitem demo_libs demo_handle 0 demo_later_world))) = Some demo_small_archive
   \<and> length_attr (fst (snd (getitem demo_libs demo_handle 0 demo_later_world))) = PyInt 1
   \<and> keys (fst (snd (getitem demo_libs demo_handle 0 demo_later_world))) = PyList [PyBytes ''2'']
   \<and> opens (snd (snd (getitem demo_libs demo_handle 0 demo_later_world))) = 2"
proof -
  have i: "init demo_libs ''train.lmdb'' None None demo_world = (Inr demo_handle, demo_world\<lparr>opens := 1\<rparr>)"
    by (simp add: init_def loads_def demo_defs)
  have f: "fs demo_later_world ''train.lmdb'' = Some demo_small_archive" by (simp add: demo_defs)
  have n: "loads demo_libs (demo_small_archive ''__len__'') = Inr (PyInt 1)"
    by (simp add: loads_def demo_defs)
  have k: "loads demo_libs (demo_small_archive ''__keys__'') = Inr (PyList [PyBytes ''2''])"
    by (simp add: loads_def demo_defs)
  have o: "opens (demo_world\<lparr>opens := 1\<rparr>) \<le> opens demo_later_world" by (simp add: demo_defs)
  have o2: "opens demo_later_world = 1" by (simp add: demo_defs)
  from construction_connection_discarded [OF i f n k o, of 0] i o2 show ?thesis
    by (simp add: demo_handle_def)
qed


end
